theory Spec2Isabelle
  imports Main
begin

section \<open>Data model (shared/schema.ts)\<close>

text \<open>
  Every table of the schema is a list of rows, in insertion order. A row is a record of
  the columns that the storage operations read or write; columns that no modelled operation
  touches (e-mail, names, labels, proof texts, creation timestamps) are left out.
  Identifiers are the \<open>varchar\<close> primary keys, timestamps are milliseconds since the epoch,
  and every \<open>integer\<close> column is a 32-bit PostgreSQL integer, held here as an \<open>int\<close> together
  with the range check that PostgreSQL performs when such a value is stored.
\<close>

type_synonym ident = string
type_synonym timestamp = int

record user =
  user_id :: ident
  credits :: int
  lastStipendDate :: "timestamp option"
  user_updatedAt :: "timestamp option"

record challenge =
  challenge_id :: ident
  challenge_title :: string
  reward :: int

datatype submission_status = SubPending | SubApproved | SubRejected

record challengeSubmission =
  submission_id :: ident
  sub_challengeId :: ident
  sub_userId :: ident
  sub_status :: submission_status
  reviewedBy :: "ident option"
  reviewedAt :: "timestamp option"

datatype event_status = EvOpen | EvClosed | EvResolved | EvCancelled

record bettingEvent =
  event_id :: ident
  event_status :: event_status
  ev_winningOptionId :: "ident option"
  resolvedAt :: "timestamp option"

text \<open>
  \<open>multiplier\<close> is a \<open>decimal(10, 2)\<close> column: the row holds the exact decimal \<open>c / 100\<close>, and
  the record holds the integer \<open>c\<close> (the multiplier in hundredths).
\<close>

record bettingOption =
  option_id :: ident
  opt_eventId :: ident
  multiplier :: int

datatype bet_status = Active | Cancelled | Won | Lost

record bet =
  bet_id :: ident
  bet_eventId :: ident
  bet_optionId :: ident
  bet_userId :: ident
  bet_amount :: int
  bet_status :: bet_status
  payout :: "int option"

datatype loan_status = LoanPending | Funded | Repaid | Defaulted

record loan =
  loan_id :: ident
  loan_borrowerId :: ident
  loan_lenderId :: "ident option"
  loan_amount :: int
  totalRepayment :: int
  loan_status :: loan_status
  fundedAt :: "timestamp option"
  repaidAt :: "timestamp option"

record creditTransaction =
  tx_userId :: ident
  tx_amount :: int
  tx_type :: string
  tx_referenceId :: "ident option"
  tx_description :: string
  balanceAfter :: int

record db =
  users :: "user list"
  challenges :: "challenge list"
  challengeSubmissions :: "challengeSubmission list"
  bettingEvents :: "bettingEvent list"
  bettingOptions :: "bettingOption list"
  bets :: "bet list"
  loans :: "loan list"
  creditTransactions :: "creditTransaction list"

text \<open>The value range of a PostgreSQL \<open>integer\<close> column.\<close>

definition int4 :: "int \<Rightarrow> bool" where
  "int4 n \<longleftrightarrow> - 2147483648 \<le> n \<and> n \<le> 2147483647"

section \<open>JavaScript numbers\<close>

text \<open>
  \<open>resolveBettingEvent\<close> computes \<open>Math.floor(bet.amount * parseFloat(option.multiplier))\<close>
  on JavaScript numbers, which are IEEE 754 binary64 values. A finite binary64 value is
  modelled exactly as a pair \<open>(m, e)\<close> of integers that stands for \<open>m * 2 ^ e\<close>;
  \<open>binary64 n d\<close> is the value nearest to the rational \<open>n / d\<close> (\<open>d > 0\<close>) with a 53-bit
  significand, ties going to the even significand. Exponent overflow and subnormal values
  are not modelled: they lie outside every product of a 32-bit amount and a
  \<open>decimal(10, 2)\<close> multiplier.
\<close>

fun bitlen :: "nat \<Rightarrow> nat" where
  "bitlen n = (if n = 0 then 0 else Suc (bitlen (n div 2)))"

declare bitlen.simps [simp del]

definition round_half_even :: "int \<Rightarrow> int \<Rightarrow> int" where
  "round_half_even n d =
     (let q = n div d; r = n mod d
      in if 2 * r < d then q
         else if d < 2 * r then q + 1
         else if even q then q else q + 1)"

definition floor_log2 :: "int \<Rightarrow> int \<Rightarrow> int" where
  "floor_log2 a d =
     (let k = int (bitlen (nat a)) - int (bitlen (nat d))
      in if (if 0 \<le> k then d * 2 ^ nat k \<le> a else d \<le> a * 2 ^ nat (- k)) then k else k - 1)"

definition binary64 :: "int \<Rightarrow> int \<Rightarrow> int \<times> int" where
  "binary64 n d =
     (if n = 0 then (0, 0)
      else
        let a = \<bar>n\<bar>;
            e = floor_log2 a d - 52;
            m = (if 0 \<le> e then round_half_even a (d * 2 ^ nat e)
                 else round_half_even (a * 2 ^ nat (- e)) d)
        in (sgn n * m, e))"

text \<open>\<open>parseFloat\<close> of the decimal string of a multiplier of \<open>c\<close> hundredths.\<close>

definition parseFloat :: "int \<Rightarrow> int \<times> int" where
  "parseFloat c = binary64 c 100"

text \<open>The product \<open>a * x\<close> of an integer \<open>a\<close> (itself a binary64 value) and a binary64 \<open>x\<close>.\<close>

definition js_times :: "int \<Rightarrow> int \<times> int \<Rightarrow> int \<times> int" where
  "js_times a x =
     (case x of (m, e) \<Rightarrow>
        if 0 \<le> e then binary64 (a * m * 2 ^ nat e) 1 else binary64 (a * m) (2 ^ nat (- e)))"

definition Math_floor :: "int \<times> int \<Rightarrow> int" where
  "Math_floor x = (case x of (m, e) \<Rightarrow> if 0 \<le> e then m * 2 ^ nat e else m div 2 ^ nat (- e))"

text \<open>The payout expression of \<open>resolveBettingEvent\<close>.\<close>

definition payout_of :: "int \<Rightarrow> int \<Rightarrow> int" where
  "payout_of amount mult = Math_floor (js_times amount (parseFloat mult))"

section \<open>The store and its transactions (server/storage.ts)\<close>

text \<open>
  The operations work on a store of type \<open>db\<close>. The handle \<open>db\<close> of the source
  comes from \<open>server/db.ts\<close>, which is not among the source files: it is taken to be a
  drizzle handle over a pool of PostgreSQL connections, whose \<open>transaction\<close> runs its callback
  between \<open>BEGIN\<close> and \<open>COMMIT\<close> on a connection of its own and rolls back when the callback
  throws. A transaction is one step on the store. Between two awaited statements of an
  operation the transactions of other requests can commit; where an operation carries a row
  it has read across such a point (\<open>processWeeklyStipends\<close>), what the other requests have
  committed in between is an argument of its model.

  A storage operation either returns or throws. Both outcomes carry the store as it is
  persisted afterwards.
\<close>

datatype error = TypeError | IntegerOutOfRange | ForeignKeyViolation | UniqueViolation

datatype outcome = Done db | Threw error db

fun store :: "outcome \<Rightarrow> db" where
  "store (Done s) = s"
| "store (Threw e s) = s"

text \<open>Sequencing of awaited calls: an exception of the first call propagates.\<close>

fun and_then :: "outcome \<Rightarrow> (db \<Rightarrow> outcome) \<Rightarrow> outcome" where
  "and_then (Done s) k = k s"
| "and_then (Threw e s) k = Threw e s"

text \<open>
  \<open>UPDATE t SET f WHERE p\<close> rewrites the rows that satisfy \<open>p\<close>; \<open>RETURNING\<close> yields the
  rewritten rows, and \<open>const [row] = ...\<close> takes the first of them, or \<open>undefined\<close>.
\<close>

definition update_where :: "('a \<Rightarrow> bool) \<Rightarrow> ('a \<Rightarrow> 'a) \<Rightarrow> 'a list \<Rightarrow> 'a list" where
  "update_where p f rows = map (\<lambda>r. if p r then f r else r) rows"

definition returning :: "('a \<Rightarrow> bool) \<Rightarrow> ('a \<Rightarrow> 'a) \<Rightarrow> 'a list \<Rightarrow> 'a list" where
  "returning p f rows = map f (filter p rows)"

definition user_exists :: "db \<Rightarrow> ident \<Rightarrow> bool" where
  "user_exists s uid \<longleftrightarrow> list_ex (\<lambda>u. user_id u = uid) (users s)"

subsection \<open>Credit operations\<close>

text \<open>
  \<open>updateUserCredits\<close> is one transaction of its own (\<open>db.transaction\<close>): the balance update
  and the audit row are both persisted, or the call throws and neither is. When no user row
  matches, \<open>user\<close> is \<open>undefined\<close> and reading \<open>user.credits\<close> throws a TypeError.
\<close>

definition add_credits :: "int \<Rightarrow> timestamp \<Rightarrow> user \<Rightarrow> user" where
  "add_credits amount now u = u\<lparr>credits := credits u + amount, user_updatedAt := Some now\<rparr>"

definition updateUserCredits ::
  "ident \<Rightarrow> int \<Rightarrow> string \<Rightarrow> string \<Rightarrow> ident option \<Rightarrow> timestamp \<Rightarrow> db \<Rightarrow> outcome" where
  "updateUserCredits userId amount type description referenceId now s =
     (let rows = returning (\<lambda>u. user_id u = userId) (add_credits amount now) (users s)
      in if \<not> int4 amount \<or> list_ex (\<lambda>u. \<not> int4 (credits u)) rows then Threw IntegerOutOfRange s
         else case rows of
                [] \<Rightarrow> Threw TypeError s
              | user # _ \<Rightarrow>
                  Done (s\<lparr>users := update_where (\<lambda>u. user_id u = userId) (add_credits amount now) (users s),
                          creditTransactions := creditTransactions s @
                            [\<lparr>tx_userId = userId, tx_amount = amount, tx_type = type,
                              tx_referenceId = referenceId, tx_description = description,
                              balanceAfter = credits user\<rparr>]\<rparr>))"

text \<open>
  \<open>processWeeklyStipends\<close> selects the eligible users once and then runs one transaction per
  selected row; the audit row takes its \<open>balanceAfter\<close> from the selected row
  (\<open>user.credits + 200\<close>), not from the updated one (the \<open>UPDATE\<close> has no \<open>RETURNING\<close>).

  The cut-off \<open>oneWeekAgo\<close> reaches the query as a JavaScript \<open>Date\<close> parameter of a raw
  \<open>sql\<close> fragment, which the driver renders as a timestamp in the time zone of the server
  process, while the column \<open>last_stipend_date\<close> holds readings in UTC. The column is thus
  compared with the cut-off shifted by \<open>zone\<close>, the offset of the server's time zone from
  UTC in milliseconds (0 for a server that runs in UTC).
\<close>

definition eligible :: "int \<Rightarrow> timestamp \<Rightarrow> user \<Rightarrow> bool" where
  "eligible zone oneWeekAgo u =
     (case lastStipendDate u of None \<Rightarrow> True | Some d \<Rightarrow> d < oneWeekAgo + zone)"

definition grant_stipend :: "timestamp \<Rightarrow> user \<Rightarrow> user" where
  "grant_stipend now u =
     u\<lparr>credits := credits u + 200, lastStipendDate := Some now, user_updatedAt := Some now\<rparr>"

text \<open>
  The transaction for one selected row \<open>user\<close>, on the store \<open>s\<close> as it is when the
  transaction runs: the \<open>UPDATE\<close> adds 200 to the balance that \<open>s\<close> holds, the audit row is
  computed from the selected row.
\<close>

definition stipend_transaction :: "timestamp \<Rightarrow> user \<Rightarrow> db \<Rightarrow> outcome" where
  "stipend_transaction now user s =
     (if list_ex (\<lambda>u. user_id u = user_id user \<and> \<not> int4 (credits u + 200)) (users s)
         \<or> \<not> int4 (credits user + 200)
      then Threw IntegerOutOfRange s
      else if \<not> user_exists s (user_id user) then Threw ForeignKeyViolation s
      else Done (s\<lparr>users := update_where (\<lambda>u. user_id u = user_id user) (grant_stipend now) (users s),
                   creditTransactions := creditTransactions s @
                     [\<lparr>tx_userId = user_id user, tx_amount = 200, tx_type = ''weekly_stipend'',
                       tx_referenceId = None, tx_description = ''Weekly credit stipend'',
                       balanceAfter = credits user + 200\<rparr>]\<rparr>))"

text \<open>
  The loop awaits one transaction per selected row. The selection and the transactions are
  separate statements on the pool, so before each transaction other requests can commit
  transactions of their own: \<open>others\<close> lists, for the selected rows in turn, what the other
  requests have committed since the previous statement of the loop (a function on stores,
  such as \<open>\<lambda>s. store (placeBet newId bet now s)\<close>); when the list is used up, nothing more
  is committed in between.
\<close>

fun stipend_loop :: "timestamp \<Rightarrow> user list \<Rightarrow> (db \<Rightarrow> db) list \<Rightarrow> db \<Rightarrow> outcome" where
  "stipend_loop now [] others s = Done s"
| "stipend_loop now (user # rest) [] s =
     and_then (stipend_transaction now user s) (stipend_loop now rest [])"
| "stipend_loop now (user # rest) (other # later) s =
     and_then (stipend_transaction now user (other s)) (stipend_loop now rest later)"

text \<open>
  The query has no \<open>ORDER BY\<close>, so the rows come back in an order of PostgreSQL's choosing:
  \<open>rank\<close> stands for it (rows of lower rank first, rows of equal rank in the order of the
  table).
\<close>

definition processWeeklyStipends ::
  "int \<Rightarrow> (user \<Rightarrow> nat) \<Rightarrow> (db \<Rightarrow> db) list \<Rightarrow> timestamp \<Rightarrow> db \<Rightarrow> outcome" where
  "processWeeklyStipends zone rank others now s =
     (let oneWeekAgo = now - 7 * 24 * 60 * 60 * 1000;
          eligibleUsers = sort_key rank (filter (eligible zone oneWeekAgo) (users s))
      in stipend_loop now eligibleUsers others s)"

subsection \<open>Transactions of the settlement operations\<close>

text \<open>
  A settlement operation opens a transaction \<open>tx\<close> for its own statements, which write the
  tables \<open>challenge_submissions\<close>, \<open>betting_events\<close>, \<open>bets\<close> and \<open>loans\<close>, and calls
  \<open>this.updateUserCredits\<close> for every credit movement. That method does not take \<open>tx\<close>: it
  runs on \<open>db\<close>, in a transaction of its own, which is committed when the call returns and
  which reads and writes only \<open>users\<close> and \<open>credit_transactions\<close>. So when the callback of
  \<open>tx\<close> throws, the rollback restores the tables written through \<open>tx\<close> and keeps the
  balances and audit rows that completed calls of \<open>updateUserCredits\<close> have stored.
\<close>

definition rollback :: "db \<Rightarrow> db \<Rightarrow> db" where
  "rollback s0 s1 = s0\<lparr>users := users s1, creditTransactions := creditTransactions s1\<rparr>"

fun transaction :: "db \<Rightarrow> outcome \<Rightarrow> outcome" where
  "transaction s0 (Done s1) = Done s1"
| "transaction s0 (Threw e s1) = Threw e (rollback s0 s1)"

subsection \<open>Challenge submissions\<close>

datatype decision = Approved | Rejected

fun status_of :: "decision \<Rightarrow> submission_status" where
  "status_of Approved = SubApproved"
| "status_of Rejected = SubRejected"

definition set_review :: "decision \<Rightarrow> ident \<Rightarrow> timestamp \<Rightarrow> challengeSubmission \<Rightarrow> challengeSubmission" where
  "set_review status reviewerId now r =
     r\<lparr>sub_status := status_of status, reviewedBy := Some reviewerId, reviewedAt := Some now\<rparr>"

definition reviewSubmission :: "ident \<Rightarrow> decision \<Rightarrow> ident \<Rightarrow> timestamp \<Rightarrow> db \<Rightarrow> outcome" where
  "reviewSubmission submissionId status reviewerId now s =
     transaction s
       (let hit = (\<lambda>r. submission_id r = submissionId);
            rows = returning hit (set_review status reviewerId now) (challengeSubmissions s);
            s1 = s\<lparr>challengeSubmissions :=
                     update_where hit (set_review status reviewerId now) (challengeSubmissions s)\<rparr>
        in if rows \<noteq> [] \<and> \<not> user_exists s reviewerId then Threw ForeignKeyViolation s1
           else case status of
                  Rejected \<Rightarrow> Done s1
                | Approved \<Rightarrow>
                    (case rows of
                       [] \<Rightarrow> Threw TypeError s1
                     | submission # _ \<Rightarrow>
                         (case filter (\<lambda>c. challenge_id c = sub_challengeId submission) (challenges s1) of
                            [] \<Rightarrow> Done s1
                          | challenge # _ \<Rightarrow>
                              updateUserCredits (sub_userId submission) (reward challenge)
                                ''challenge_reward''
                                (''Challenge completed: '' @ challenge_title challenge)
                                (Some (challenge_id challenge)) now s1)))"

subsection \<open>Betting\<close>

record insertBet =
  ins_eventId :: ident
  ins_optionId :: ident
  ins_userId :: ident
  ins_amount :: int

text \<open>
  \<open>newId\<close> is the primary key that \<open>gen_random_uuid()\<close> gives the inserted row; the other
  defaults of the table are \<open>status = 'active'\<close> and no payout.
\<close>

definition placeBet :: "ident \<Rightarrow> insertBet \<Rightarrow> timestamp \<Rightarrow> db \<Rightarrow> outcome" where
  "placeBet newId bet now s =
     transaction s
       (let row = \<lparr>bet_id = newId, bet_eventId = ins_eventId bet, bet_optionId = ins_optionId bet,
                   bet_userId = ins_userId bet, bet_amount = ins_amount bet,
                   bet_status = Active, payout = None\<rparr>;
            s1 = s\<lparr>bets := bets s @ [row]\<rparr>
        in if \<not> int4 (ins_amount bet) then Threw IntegerOutOfRange s1
           else if list_ex (\<lambda>b. bet_id b = newId) (bets s) then Threw UniqueViolation s1
           else if \<not> (list_ex (\<lambda>e. event_id e = ins_eventId bet) (bettingEvents s)
                       \<and> list_ex (\<lambda>opt. option_id opt = ins_optionId bet) (bettingOptions s)
                       \<and> user_exists s (ins_userId bet))
                then Threw ForeignKeyViolation s1
           else updateUserCredits (ins_userId bet) (- ins_amount bet) ''bet_placed'' ''Bet placed''
                  (Some (ins_eventId bet)) now s1)"

definition cancelBet :: "ident \<Rightarrow> ident \<Rightarrow> timestamp \<Rightarrow> db \<Rightarrow> outcome" where
  "cancelBet betId userId now s =
     transaction s
       (let hit = (\<lambda>b. bet_id b = betId \<and> bet_userId b = userId);
            rows = returning hit (\<lambda>b. b\<lparr>bet_status := Cancelled\<rparr>) (bets s);
            s1 = s\<lparr>bets := update_where hit (\<lambda>b. b\<lparr>bet_status := Cancelled\<rparr>) (bets s)\<rparr>
        in case rows of
             [] \<Rightarrow> Done s1
           | bet # _ \<Rightarrow>
               updateUserCredits userId (bet_amount bet) ''bet_cancelled''
                 ''Bet cancelled and refunded'' (Some (bet_eventId bet)) now s1)"

definition resolve_event :: "ident \<Rightarrow> timestamp \<Rightarrow> bettingEvent \<Rightarrow> bettingEvent" where
  "resolve_event winningOption now e =
     e\<lparr>event_status := EvResolved, ev_winningOptionId := Some winningOption, resolvedAt := Some now\<rparr>"

text \<open>The rows of \<open>bets INNER JOIN betting_options\<close> that the winning-bets query selects.\<close>

definition winningBets :: "ident \<Rightarrow> ident \<Rightarrow> db \<Rightarrow> (bet \<times> bettingOption) list" where
  "winningBets eventId winningOption s =
     filter (\<lambda>(b, opt). bet_eventId b = eventId \<and> bet_optionId b = winningOption
                           \<and> bet_status b = Active)
       (filter (\<lambda>(b, opt). bet_optionId b = option_id opt)
          (List.product (bets s) (bettingOptions s)))"

fun payout_loop :: "ident \<Rightarrow> timestamp \<Rightarrow> (bet \<times> bettingOption) list \<Rightarrow> db \<Rightarrow> outcome" where
  "payout_loop eventId now [] s = Done s"
| "payout_loop eventId now ((bet, opt) # rest) s =
     (let p = payout_of (bet_amount bet) (multiplier opt);
          s1 = s\<lparr>bets := update_where (\<lambda>b. bet_id b = bet_id bet)
                            (\<lambda>b. b\<lparr>bet_status := Won, payout := Some p\<rparr>) (bets s)\<rparr>
      in if \<not> int4 p then Threw IntegerOutOfRange s1
         else and_then
                (updateUserCredits (bet_userId bet) p ''bet_win'' ''Betting win payout''
                   (Some eventId) now s1)
                (payout_loop eventId now rest))"

definition mark_lost :: "ident \<Rightarrow> ident \<Rightarrow> bet list \<Rightarrow> bet list" where
  "mark_lost eventId winningOption bs =
     update_where
       (\<lambda>b. bet_eventId b = eventId \<and> bet_optionId b \<noteq> winningOption \<and> bet_status b = Active)
       (\<lambda>b. b\<lparr>bet_status := Lost\<rparr>) bs"

definition resolveBettingEvent :: "ident \<Rightarrow> ident \<Rightarrow> ident \<Rightarrow> timestamp \<Rightarrow> db \<Rightarrow> outcome" where
  "resolveBettingEvent eventId winningOption adminId now s =
     transaction s
       (let s1 = s\<lparr>bettingEvents := update_where (\<lambda>e. event_id e = eventId)
                                       (resolve_event winningOption now) (bettingEvents s)\<rparr>
        in and_then (payout_loop eventId now (winningBets eventId winningOption s1) s1)
             (\<lambda>s2. Done (s2\<lparr>bets := mark_lost eventId winningOption (bets s2)\<rparr>)))"

subsection \<open>Loans\<close>

definition set_funded :: "ident \<Rightarrow> timestamp \<Rightarrow> loan \<Rightarrow> loan" where
  "set_funded lender now l =
     l\<lparr>loan_lenderId := Some lender, loan_status := Funded, fundedAt := Some now\<rparr>"

definition fundLoan :: "ident \<Rightarrow> ident \<Rightarrow> timestamp \<Rightarrow> db \<Rightarrow> outcome" where
  "fundLoan loanId lenderId now s =
     transaction s
       (let rows = returning (\<lambda>l. loan_id l = loanId) (set_funded lenderId now) (loans s);
            s1 = s\<lparr>loans := update_where (\<lambda>l. loan_id l = loanId) (set_funded lenderId now) (loans s)\<rparr>
        in if rows \<noteq> [] \<and> \<not> user_exists s lenderId then Threw ForeignKeyViolation s1
           else case rows of
                  [] \<Rightarrow> Done s1
                | loan # _ \<Rightarrow>
                    and_then
                      (updateUserCredits lenderId (- loan_amount loan) ''loan_funded''
                         ''Loan funded to another user'' (Some loanId) now s1)
                      (updateUserCredits (loan_borrowerId loan) (loan_amount loan) ''loan_received''
                         ''Loan received from another user'' (Some loanId) now))"

definition set_repaid :: "timestamp \<Rightarrow> loan \<Rightarrow> loan" where
  "set_repaid now l = l\<lparr>loan_status := Repaid, repaidAt := Some now\<rparr>"

text \<open>
  \<open>if (loan && loan.lenderId)\<close>: the lender column must be neither \<open>NULL\<close> nor the empty
  string, which JavaScript also takes for false.
\<close>

definition repayLoan :: "ident \<Rightarrow> timestamp \<Rightarrow> db \<Rightarrow> outcome" where
  "repayLoan loanId now s =
     transaction s
       (let rows = returning (\<lambda>l. loan_id l = loanId) (set_repaid now) (loans s);
            s1 = s\<lparr>loans := update_where (\<lambda>l. loan_id l = loanId) (set_repaid now) (loans s)\<rparr>
        in case rows of
             [] \<Rightarrow> Done s1
           | loan # _ \<Rightarrow>
               (case loan_lenderId loan of
                  None \<Rightarrow> Done s1
                | Some lender \<Rightarrow>
                    if lender = [] then Done s1
                    else and_then
                           (updateUserCredits (loan_borrowerId loan) (- totalRepayment loan)
                              ''loan_repaid'' ''Loan repayment'' (Some loanId) now s1)
                           (updateUserCredits lender (totalRepayment loan)
                              ''loan_repaid_received'' ''Loan repayment received'' (Some loanId) now)))"

subsection \<open>The balance-changing operations of the storage interface\<close>

text \<open>
  \<open>run oper now s\<close> is a call of an operation at the time \<open>now\<close> on the store \<open>s\<close>, during
  which no other request commits.
\<close>

datatype operation =
    UpdateUserCredits ident int string string "ident option"
  | ProcessWeeklyStipends int "user \<Rightarrow> nat"
  | ReviewSubmission ident decision ident
  | PlaceBet ident insertBet
  | CancelBet ident ident
  | ResolveBettingEvent ident ident ident
  | FundLoan ident ident
  | RepayLoan ident

fun run :: "operation \<Rightarrow> timestamp \<Rightarrow> db \<Rightarrow> outcome" where
  "run (UpdateUserCredits userId amount type description referenceId) now s =
     updateUserCredits userId amount type description referenceId now s"
| "run (ProcessWeeklyStipends zone rank) now s = processWeeklyStipends zone rank [] now s"
| "run (ReviewSubmission submissionId status reviewerId) now s =
     reviewSubmission submissionId status reviewerId now s"
| "run (PlaceBet newId bet) now s = placeBet newId bet now s"
| "run (CancelBet betId userId) now s = cancelBet betId userId now s"
| "run (ResolveBettingEvent eventId winningOption adminId) now s =
     resolveBettingEvent eventId winningOption adminId now s"
| "run (FundLoan loanId lenderId) now s = fundLoan loanId lenderId now s"
| "run (RepayLoan loanId) now s = repayLoan loanId now s"

section \<open>Properties of the ledger\<close>

text \<open>The sum of the amounts of a player's audit rows, and the balance invariant of a player.\<close>

definition ledger_sum :: "db \<Rightarrow> ident \<Rightarrow> int" where
  "ledger_sum s uid = sum_list (map tx_amount (filter (\<lambda>t. tx_userId t = uid) (creditTransactions s)))"

definition balanced :: "db \<Rightarrow> ident \<Rightarrow> bool" where
  "balanced s uid \<longleftrightarrow> (\<forall>u \<in> set (users s). user_id u = uid \<longrightarrow> credits u = ledger_sum s uid)"

text \<open>
  The payout as the specification words it: the floor of the exact product of the amount
  and the decimal multiplier (\<open>mult\<close> hundredths).
\<close>

definition spec_payout :: "int \<Rightarrow> int \<Rightarrow> int" where
  "spec_payout amount mult = (amount * mult) div 100"

text \<open>
  The audit rows of a player in creation order, the balance of a player (of the first row
  with that id; the primary key makes it the only one), and the reading of \<open>balanceAfter\<close>
  as a running balance: \<open>snapshots_from b ts\<close> says that, starting from the balance \<open>b\<close>,
  every row of \<open>ts\<close> holds the balance reached once its amount is added.
\<close>

definition entries_of :: "db \<Rightarrow> ident \<Rightarrow> creditTransaction list" where
  "entries_of s uid = filter (\<lambda>t. tx_userId t = uid) (creditTransactions s)"

definition credits_of :: "db \<Rightarrow> ident \<Rightarrow> int option" where
  "credits_of s uid =
     (case filter (\<lambda>u. user_id u = uid) (users s) of [] \<Rightarrow> None | u # _ \<Rightarrow> Some (credits u))"

fun snapshots_from :: "int \<Rightarrow> creditTransaction list \<Rightarrow> bool" where
  "snapshots_from b [] = True"
| "snapshots_from b (t # ts) = (balanceAfter t = b + tx_amount t \<and> snapshots_from (balanceAfter t) ts)"

definition newest_is_balance :: "db \<Rightarrow> ident \<Rightarrow> bool" where
  "newest_is_balance s uid =
     (case rev (entries_of s uid) of [] \<Rightarrow> True | t # _ \<Rightarrow> credits_of s uid = Some (balanceAfter t))"

text \<open>
  \<open>grows s s'\<close>: the players are the same; for every player the audit rows of \<open>s'\<close>
  are those of \<open>s\<close> followed by rows whose snapshots run from the balance in \<open>s\<close> to the
  balance in \<open>s'\<close>; and no audit row is added under an id that is not a player's.
\<close>

definition grows :: "db \<Rightarrow> db \<Rightarrow> bool" where
  "grows s s' \<longleftrightarrow>
     map user_id (users s') = map user_id (users s) \<and>
     (\<forall>uid b. credits_of s uid = Some b \<longrightarrow>
        (\<exists>new. entries_of s' uid = entries_of s uid @ new \<and> snapshots_from b new \<and>
               credits_of s' uid = Some (b + sum_list (map tx_amount new)))) \<and>
     (\<forall>uid. credits_of s uid = None \<longrightarrow> entries_of s' uid = entries_of s uid)"

text \<open>Whether an operation returned rather than threw.\<close>

fun returned :: "outcome \<Rightarrow> bool" where
  "returned (Done s) = True"
| "returned (Threw e s) = False"

text \<open>The tables that \<open>resolveBettingEvent\<close> has no statement for.\<close>

definition other_tables_kept :: "db \<Rightarrow> db \<Rightarrow> bool" where
  "other_tables_kept s s' \<longleftrightarrow>
     challenges s' = challenges s \<and> challengeSubmissions s' = challengeSubmissions s \<and>
     bettingOptions s' = bettingOptions s \<and> loans s' = loans s"

section \<open>Example stores\<close>

definition player :: "ident \<Rightarrow> int \<Rightarrow> user" where
  "player uid c = \<lparr>user_id = uid, credits = c, lastStipendDate = None, user_updatedAt = None\<rparr>"

definition stipend_row :: "ident \<Rightarrow> int \<Rightarrow> creditTransaction" where
  "stipend_row uid after =
     \<lparr>tx_userId = uid, tx_amount = 200, tx_type = ''weekly_stipend'', tx_referenceId = None,
       tx_description = ''Weekly credit stipend'', balanceAfter = after\<rparr>"

definition active_bet :: "ident \<Rightarrow> ident \<Rightarrow> ident \<Rightarrow> ident \<Rightarrow> int \<Rightarrow> bet" where
  "active_bet bid eid oid uid amount =
     \<lparr>bet_id = bid, bet_eventId = eid, bet_optionId = oid, bet_userId = uid, bet_amount = amount,
       bet_status = Active, payout = None\<rparr>"

definition ledger_row :: "ident \<Rightarrow> int \<Rightarrow> string \<Rightarrow> ident \<Rightarrow> int \<Rightarrow> creditTransaction" where
  "ledger_row uid amount type ref after =
     \<lparr>tx_userId = uid, tx_amount = amount, tx_type = type, tx_referenceId = Some ref,
       tx_description = [], balanceAfter = after\<rparr>"

text \<open>
  Two players who have each received one stipend, an open event with the options
  \<open>2.00\<close> and \<open>1.15\<close>, and a bet of 100 that the first player has placed on the second
  option.
\<close>

definition arena :: db where
  "arena =
     \<lparr>users = [player ''ann'' 100, player ''bob'' 200],
      challenges = [],
      challengeSubmissions = [],
      bettingEvents = [\<lparr>event_id = ''derby'', event_status = EvOpen, ev_winningOptionId = None,
                        resolvedAt = None\<rparr>],
      bettingOptions = [\<lparr>option_id = ''red'', opt_eventId = ''derby'', multiplier = 200\<rparr>,
                        \<lparr>option_id = ''blue'', opt_eventId = ''derby'', multiplier = 115\<rparr>],
      bets = [active_bet ''b1'' ''derby'' ''blue'' ''ann'' 100],
      loans = [],
      creditTransactions = [stipend_row ''ann'' 200, stipend_row ''bob'' 200,
                            ledger_row ''ann'' (- 100) ''bet_placed'' ''derby'' 100]\<rparr>"

text \<open>
  The derby after it was resolved with the second option winning, and the same store after
  the other player has then placed a bet of 50 on that option.
\<close>

definition finished :: db where
  "finished = store (resolveBettingEvent ''derby'' ''blue'' ''admin'' 9 arena)"

definition settled :: db where
  "settled =
     store (placeBet ''b2''
              \<lparr>ins_eventId = ''derby'', ins_optionId = ''blue'', ins_userId = ''bob'', ins_amount = 50\<rparr>
              10 finished)"

text \<open>
  Three players with one stipend each and a pending loan of 50 (55 to repay) that the first
  player has asked for; the same store after the second player has funded the loan; and after
  the first player has then repaid it.
\<close>

definition bank :: db where
  "bank =
     \<lparr>users = [player ''ann'' 200, player ''bob'' 200, player ''cal'' 200],
      challenges = [],
      challengeSubmissions = [],
      bettingEvents = [],
      bettingOptions = [],
      bets = [],
      loans = [\<lparr>loan_id = ''l1'', loan_borrowerId = ''ann'', loan_lenderId = None, loan_amount = 50,
                totalRepayment = 55, loan_status = LoanPending, fundedAt = None, repaidAt = None\<rparr>],
      creditTransactions = [stipend_row ''ann'' 200, stipend_row ''bob'' 200, stipend_row ''cal'' 200]\<rparr>"

definition funded :: db where
  "funded = store (fundLoan ''l1'' ''bob'' 20 bank)"

definition repaid :: db where
  "repaid = store (repayLoan ''l1'' 22 funded)"

text \<open>
  The store \<open>arena\<close> after the first player has cancelled the bet; and a store with a
  challenge worth 30, a pending submission of the first player to it and a reviewer, together
  with the store that approving the submission leaves.
\<close>

definition cancelled :: db where
  "cancelled = store (cancelBet ''b1'' ''ann'' 5 arena)"

definition school :: db where
  "school =
     \<lparr>users = [player ''ann'' 200, player ''zed'' 0],
      challenges = [\<lparr>challenge_id = ''ch1'', challenge_title = ''Run'', reward = 30\<rparr>],
      challengeSubmissions = [\<lparr>submission_id = ''sb1'', sub_challengeId = ''ch1'', sub_userId = ''ann'',
                               sub_status = SubPending, reviewedBy = None, reviewedAt = None\<rparr>],
      bettingEvents = [],
      bettingOptions = [],
      bets = [],
      loans = [],
      creditTransactions = [stipend_row ''ann'' 200]\<rparr>"

definition approved :: db where
  "approved = store (reviewSubmission ''sb1'' Approved ''zed'' 30 school)"

text \<open>A store in which the borrower of a pending loan holds the largest balance the column can.\<close>

definition brim :: db where
  "brim =
     \<lparr>users = [player ''ann'' 2147483647, player ''bob'' 200],
      challenges = [],
      challengeSubmissions = [],
      bettingEvents = [],
      bettingOptions = [],
      bets = [],
      loans = [\<lparr>loan_id = ''l1'', loan_borrowerId = ''ann'', loan_lenderId = None, loan_amount = 50,
                totalRepayment = 55, loan_status = LoanPending, fundedAt = None, repaidAt = None\<rparr>],
      creditTransactions = []\<rparr>"

text \<open>
  A player who has just signed up (1000 credits by the default of the column, no stipend so
  far, no audit row) and an open event with one option; a bet of 30 by that player, as another
  request commits it; and the store that a stipend run leaves when that bet is committed
  between the selection of the run and the player's transaction.
\<close>

definition lobby :: db where
  "lobby =
     \<lparr>users = [player ''ann'' 1000],
      challenges = [],
      challengeSubmissions = [],
      bettingEvents = [\<lparr>event_id = ''derby'', event_status = EvOpen, ev_winningOptionId = None,
                        resolvedAt = None\<rparr>],
      bettingOptions = [\<lparr>option_id = ''red'', opt_eventId = ''derby'', multiplier = 200\<rparr>],
      bets = [],
      loans = [],
      creditTransactions = []\<rparr>"

definition early_bet :: "db \<Rightarrow> db" where
  "early_bet s =
     store (placeBet ''b1''
              \<lparr>ins_eventId = ''derby'', ins_optionId = ''red'', ins_userId = ''ann'', ins_amount = 30\<rparr>
              7 s)"

definition overtaken :: db where
  "overtaken = store (processWeeklyStipends 0 (\<lambda>u. 0) [early_bet] 7 lobby)"

section \<open>Auxiliary facts\<close>

lemmas storage_defs =
  updateUserCredits_def stipend_transaction_def processWeeklyStipends_def reviewSubmission_def
  placeBet_def cancelBet_def resolveBettingEvent_def fundLoan_def repayLoan_def
  update_where_def returning_def user_exists_def rollback_def int4_def eligible_def
  add_credits_def grant_stipend_def set_review_def resolve_event_def winningBets_def
  mark_lost_def set_funded_def set_repaid_def

lemmas float_defs =
  payout_of_def parseFloat_def js_times_def binary64_def floor_log2_def round_half_even_def
  Math_floor_def bitlen.simps

lemmas example_defs = arena_def player_def stipend_row_def active_bet_def ledger_row_def

lemma balanced_accounts:
  "users s' = users s \<Longrightarrow> creditTransactions s' = creditTransactions s \<Longrightarrow> balanced s' uid = balanced s uid"
  by (simp add: balanced_def ledger_sum_def)

lemma balanced_frame [simp]:
  "balanced (s\<lparr>challengeSubmissions := cs\<rparr>) uid = balanced s uid"
  "balanced (s\<lparr>bettingEvents := es\<rparr>) uid = balanced s uid"
  "balanced (s\<lparr>bets := bs\<rparr>) uid = balanced s uid"
  "balanced (s\<lparr>loans := ls\<rparr>) uid = balanced s uid"
  by (simp_all add: balanced_def ledger_sum_def)

lemma balanced_rollback [simp]: "balanced (rollback s0 s1) uid = balanced s1 uid"
  by (simp add: balanced_def ledger_sum_def rollback_def)

lemma balanced_transaction [simp]: "balanced (store (transaction s0 r)) uid = balanced (store r) uid"
  by (cases r) simp_all

lemma balanced_and_then:
  assumes "balanced s uid \<Longrightarrow> balanced (store r) uid"
    and "\<And>s1. balanced s1 uid \<Longrightarrow> balanced (store (k s1)) uid"
    and "balanced s uid"
  shows "balanced (store (and_then r k)) uid"
  using assms by (cases r) simp_all

lemma in_update_where:
  "u \<in> set (update_where p f rows) \<longleftrightarrow> (\<exists>x \<in> set rows. u = (if p x then f x else x))"
  by (auto simp: update_where_def)

lemma add_credits_fields [simp]:
  "user_id (add_credits amount now u) = user_id u"
  "credits (add_credits amount now u) = credits u + amount"
  by (simp_all add: add_credits_def)

lemma grant_stipend_fields [simp]:
  "user_id (grant_stipend now u) = user_id u"
  "credits (grant_stipend now u) = credits u + 200"
  by (simp_all add: grant_stipend_def)

lemma updateUserCredits_Threw:
  "updateUserCredits userId amount type description referenceId now s = Threw e s' \<Longrightarrow> s' = s"
  by (auto simp: updateUserCredits_def Let_def split: if_splits list.splits)

lemma updateUserCredits_Done:
  assumes "updateUserCredits userId amount type description referenceId now s = Done s'"
  shows "\<exists>c. s' = s\<lparr>users := update_where (\<lambda>u. user_id u = userId) (add_credits amount now) (users s),
                     creditTransactions := creditTransactions s @
                       [\<lparr>tx_userId = userId, tx_amount = amount, tx_type = type,
                         tx_referenceId = referenceId, tx_description = description,
                         balanceAfter = c\<rparr>]\<rparr>"
  using assms by (auto simp: updateUserCredits_def Let_def split: if_splits list.splits)

lemma credit_step_balanced:
  assumes "balanced s uid"
    and "\<And>u. user_id (f u) = user_id u \<and> credits (f u) = credits u + amount"
  shows "balanced (s\<lparr>users := update_where (\<lambda>u. user_id u = userId) f (users s),
                     creditTransactions := creditTransactions s @
                       [\<lparr>tx_userId = userId, tx_amount = amount, tx_type = type,
                         tx_referenceId = referenceId, tx_description = description,
                         balanceAfter = c\<rparr>]\<rparr>) uid"
  unfolding balanced_def
proof (intro ballI impI)
  fix u
  let ?s' = "s\<lparr>users := update_where (\<lambda>u. user_id u = userId) f (users s),
                creditTransactions := creditTransactions s @
                  [\<lparr>tx_userId = userId, tx_amount = amount, tx_type = type,
                    tx_referenceId = referenceId, tx_description = description,
                    balanceAfter = c\<rparr>]\<rparr>"
  assume "u \<in> set (users ?s')" and uid: "user_id u = uid"
  then obtain x where x: "x \<in> set (users s)" and u: "u = (if user_id x = userId then f x else x)"
    by (auto simp: in_update_where)
  from u uid assms(2) have "user_id x = uid" by (auto split: if_splits)
  with x assms(1) have "credits x = ledger_sum s uid" by (simp add: balanced_def)
  moreover have "ledger_sum ?s' uid = ledger_sum s uid + (if userId = uid then amount else 0)"
    by (simp add: ledger_sum_def)
  ultimately show "credits u = ledger_sum ?s' uid"
    using u \<open>user_id x = uid\<close> assms(2) by simp
qed

lemma updateUserCredits_balanced:
  assumes "balanced s uid"
  shows "balanced (store (updateUserCredits userId amount type description referenceId now s)) uid"
proof (cases "updateUserCredits userId amount type description referenceId now s")
  case (Threw e s')
  with assms show ?thesis by (simp add: updateUserCredits_Threw [OF Threw])
next
  case (Done s')
  from updateUserCredits_Done [OF Done] obtain c where
    "s' = s\<lparr>users := update_where (\<lambda>u. user_id u = userId) (add_credits amount now) (users s),
             creditTransactions := creditTransactions s @
               [\<lparr>tx_userId = userId, tx_amount = amount, tx_type = type,
                 tx_referenceId = referenceId, tx_description = description,
                 balanceAfter = c\<rparr>]\<rparr>" ..
  with Done assms show ?thesis by (simp add: credit_step_balanced)
qed

lemma stipend_transaction_balanced:
  assumes "balanced s uid"
  shows "balanced (store (stipend_transaction now user s)) uid"
  using assms by (simp add: stipend_transaction_def credit_step_balanced)

text \<open>
  The stipend loop keeps the balance invariant for every list of selected rows, whatever
  their order and their contents, and whatever other requests commit in between, as long as
  what they commit keeps it too.
\<close>

lemma stipend_loop_balanced:
  assumes "balanced s uid"
    and "\<forall>other \<in> set others. \<forall>s. balanced s uid \<longrightarrow> balanced (other s) uid"
  shows "balanced (store (stipend_loop now us others s)) uid"
  using assms
proof (induction us arbitrary: s others)
  case Nil
  then show ?case by simp
next
  case (Cons user rest)
  show ?case
  proof (cases others)
    case Nil
    have "balanced (store (and_then (stipend_transaction now user s) (stipend_loop now rest []))) uid"
      by (rule balanced_and_then [where s = s])
         (auto intro: stipend_transaction_balanced Cons.IH Cons.prems(1))
    with Nil show ?thesis by simp
  next
    case others: (Cons other later)
    with Cons.prems have o: "balanced (other s) uid"
      and l: "\<forall>other \<in> set later. \<forall>s. balanced s uid \<longrightarrow> balanced (other s) uid"
      by simp_all
    have "balanced (store (and_then (stipend_transaction now user (other s))
                             (stipend_loop now rest later))) uid"
      by (rule balanced_and_then [where s = "other s"])
         (auto intro: stipend_transaction_balanced Cons.IH [OF _ l] o)
    with others show ?thesis by simp
  qed
qed

lemma payout_loop_balanced:
  "balanced s uid \<Longrightarrow> balanced (store (payout_loop eventId now ws s)) uid"
proof (induction ws arbitrary: s)
  case Nil
  then show ?case by simp
next
  case (Cons w rest)
  obtain bet opt where w: "w = (bet, opt)" by (cases w)
  let ?p = "payout_of (bet_amount bet) (multiplier opt)"
  let ?s1 = "s\<lparr>bets := update_where (\<lambda>b. bet_id b = bet_id bet) (\<lambda>b. b\<lparr>bet_status := Won, payout := Some ?p\<rparr>) (bets s)\<rparr>"
  have s1: "balanced ?s1 uid" using Cons.prems by simp
  show ?case
  proof (cases "int4 ?p")
    case False
    then show ?thesis using s1 by (simp add: w Let_def)
  next
    case True
    have "balanced (store (and_then (updateUserCredits (bet_userId bet) ?p ''bet_win'' ''Betting win payout'' (Some eventId) now ?s1) (payout_loop eventId now rest))) uid"
      by (rule balanced_and_then [where s = ?s1]) (auto intro: updateUserCredits_balanced Cons.IH Cons.prems)
    with True show ?thesis by (simp add: w Let_def)
  qed
qed


lemma snapshots_from_append:
  "snapshots_from b xs \<Longrightarrow> snapshots_from (b + sum_list (map tx_amount xs)) ys \<Longrightarrow>
   snapshots_from b (xs @ ys)"
  by (induction xs arbitrary: b) (auto simp: algebra_simps)

lemma snapshots_from_last:
  "snapshots_from b xs \<Longrightarrow> xs \<noteq> [] \<Longrightarrow> balanceAfter (last xs) = b + sum_list (map tx_amount xs)"
  by (induction xs arbitrary: b) (auto simp: algebra_simps)

lemma credits_of_None_iff: "credits_of s uid = None \<longleftrightarrow> uid \<notin> set (map user_id (users s))"
proof -
  have "credits_of s uid = None \<longleftrightarrow> filter (\<lambda>u. user_id u = uid) (users s) = []"
    by (simp add: credits_of_def split: list.splits)
  also have "\<dots> \<longleftrightarrow> uid \<notin> set (map user_id (users s))"
    by (auto simp: filter_empty_conv)
  finally show ?thesis .
qed

lemma grows_same:
  "users s' = users s \<Longrightarrow> creditTransactions s' = creditTransactions s \<Longrightarrow> grows s s'"
  unfolding grows_def entries_of_def credits_of_def
  by (auto intro!: exI [where x = "[]"])

lemma grows_trans:
  assumes "grows s s1" and "grows s1 s2"
  shows "grows s s2"
  unfolding grows_def
proof (intro conjI allI impI)
  show "map user_id (users s2) = map user_id (users s)"
    using assms by (simp add: grows_def)
next
  fix uid b
  assume "credits_of s uid = Some b"
  with assms(1) obtain n1 where n1: "entries_of s1 uid = entries_of s uid @ n1" "snapshots_from b n1"
      "credits_of s1 uid = Some (b + sum_list (map tx_amount n1))"
    unfolding grows_def by blast
  with assms(2) obtain n2 where n2: "entries_of s2 uid = entries_of s1 uid @ n2"
      "snapshots_from (b + sum_list (map tx_amount n1)) n2"
      "credits_of s2 uid = Some (b + sum_list (map tx_amount n1) + sum_list (map tx_amount n2))"
    unfolding grows_def by blast
  from n1 n2 have "entries_of s2 uid = entries_of s uid @ (n1 @ n2)"
      "snapshots_from b (n1 @ n2)"
      "credits_of s2 uid = Some (b + sum_list (map tx_amount (n1 @ n2)))"
    by (simp_all add: snapshots_from_append)
  then show "\<exists>new. entries_of s2 uid = entries_of s uid @ new \<and> snapshots_from b new \<and>
               credits_of s2 uid = Some (b + sum_list (map tx_amount new))"
    by blast
next
  fix uid
  assume none: "credits_of s uid = None"
  from assms(1) have "map user_id (users s1) = map user_id (users s)"
    by (simp add: grows_def)
  with none have "credits_of s1 uid = None"
    by (simp add: credits_of_None_iff)
  with none assms show "entries_of s2 uid = entries_of s uid"
    by (simp add: grows_def)
qed

lemma grows_accounts:
  "users s1' = users s1 \<Longrightarrow> creditTransactions s1' = creditTransactions s1 \<Longrightarrow>
   users s2' = users s2 \<Longrightarrow> creditTransactions s2' = creditTransactions s2 \<Longrightarrow>
   grows s1' s2' = grows s1 s2"
  by (simp add: grows_def entries_of_def credits_of_def)

lemma filter_update_where_same:
  assumes "\<And>x. key (f x) = key x"
  shows "filter (\<lambda>x. key x = k) (update_where (\<lambda>x. key x = k') f rows)
         = (if k = k' then map f (filter (\<lambda>x. key x = k) rows) else filter (\<lambda>x. key x = k) rows)"
  by (induction rows) (auto simp: update_where_def assms)

lemma map_key_update_where:
  assumes "\<And>x. key (f x) = key x"
  shows "map key (update_where p f rows) = map key rows"
  by (induction rows) (auto simp: update_where_def assms)

text \<open>One credit step: the balance of every matching row moves by \<open>amount\<close> and one audit row
  with the new balance of the first matching row is appended.\<close>

lemma credit_step_grows:
  assumes f: "\<And>u. user_id (f u) = user_id u" "\<And>u. credits (f u) = credits u + amount"
    and c: "credits_of s userId = Some (c - amount)"
  shows "grows s (s\<lparr>users := update_where (\<lambda>u. user_id u = userId) f (users s),
                     creditTransactions := creditTransactions s @
                       [\<lparr>tx_userId = userId, tx_amount = amount, tx_type = type,
                         tx_referenceId = referenceId, tx_description = description,
                         balanceAfter = c\<rparr>]\<rparr>)"
    (is "grows s ?s'")
  unfolding grows_def
proof (intro conjI allI impI)
  show "map user_id (users ?s') = map user_id (users s)"
    by (simp add: map_key_update_where f)
next
  fix uid b
  assume b: "credits_of s uid = Some b"
  have flt: "filter (\<lambda>u. user_id u = uid) (users ?s')
      = (if uid = userId then map f (filter (\<lambda>u. user_id u = uid) (users s))
         else filter (\<lambda>u. user_id u = uid) (users s))"
    using filter_update_where_same [of user_id f uid userId "users s"] f by simp
  show "\<exists>new. entries_of ?s' uid = entries_of s uid @ new \<and> snapshots_from b new \<and>
               credits_of ?s' uid = Some (b + sum_list (map tx_amount new))"
  proof (cases "uid = userId")
    case True
    with b c have "c = b + amount" by simp
    moreover from b have "credits_of ?s' uid = Some (b + amount)"
      unfolding credits_of_def flt using True f by (auto split: list.splits)
    ultimately show ?thesis
      using True
      by (intro exI [where x = "[\<lparr>tx_userId = userId, tx_amount = amount, tx_type = type,
                         tx_referenceId = referenceId, tx_description = description,
                         balanceAfter = c\<rparr>]"]) (simp add: entries_of_def)
  next
    case False
    moreover from b False have "credits_of ?s' uid = Some b"
      unfolding credits_of_def flt by simp
    ultimately show ?thesis
      by (intro exI [where x = "[]"]) (simp add: entries_of_def)
  qed
next
  fix uid
  assume "credits_of s uid = None"
  with c have "uid \<noteq> userId" by auto
  then show "entries_of ?s' uid = entries_of s uid"
    by (simp add: entries_of_def)
qed

lemma updateUserCredits_grows:
  "grows s (store (updateUserCredits userId amount type description referenceId now s))"
proof (cases "updateUserCredits userId amount type description referenceId now s")
  case (Threw e s')
  then show ?thesis by (simp add: updateUserCredits_Threw [OF Threw] grows_same)
next
  case (Done s')
  then obtain u rest where rows: "filter (\<lambda>u. user_id u = userId) (users s) = u # rest"
    and s': "s' = s\<lparr>users := update_where (\<lambda>u. user_id u = userId) (add_credits amount now) (users s),
             creditTransactions := creditTransactions s @
               [\<lparr>tx_userId = userId, tx_amount = amount, tx_type = type,
                 tx_referenceId = referenceId, tx_description = description,
                 balanceAfter = credits u + amount\<rparr>]\<rparr>"
    by (auto simp: updateUserCredits_def returning_def Let_def split: if_splits list.splits)
  from rows have "credits_of s userId = Some (credits u + amount - amount)"
    by (simp add: credits_of_def)
  then have "grows s s'"
    unfolding s' by (intro credit_step_grows) simp_all
  with Done show ?thesis by simp
qed

lemma stipend_transaction_grows:
  assumes "credits_of s (user_id user) = Some (credits user)"
  shows "grows s (store (stipend_transaction now user s))"
proof -
  from assms have "credits_of s (user_id user) = Some (credits user + 200 - 200)" by simp
  then show ?thesis
    unfolding stipend_transaction_def
    by (auto simp: grows_same intro!: credit_step_grows)
qed

lemma grows_and_then:
  assumes "grows s (store r)" and "\<And>s1. r = Done s1 \<Longrightarrow> grows s1 (store (k s1))"
  shows "grows s (store (and_then r k))"
  using assms by (cases r) (auto intro: grows_trans)

lemma grows_transaction [simp]: "grows s (store (transaction s0 r)) = grows s (store r)"
  by (cases r) (simp_all add: rollback_def grows_def entries_of_def credits_of_def)

lemma grows_frame [simp]:
  "grows (s\<lparr>challengeSubmissions := cs\<rparr>) s' = grows s s'"
  "grows (s\<lparr>bettingEvents := es\<rparr>) s' = grows s s'"
  "grows (s\<lparr>bets := bs\<rparr>) s' = grows s s'"
  "grows (s\<lparr>loans := ls\<rparr>) s' = grows s s'"
  "grows s (s'\<lparr>challengeSubmissions := cs\<rparr>) = grows s s'"
  "grows s (s'\<lparr>bettingEvents := es\<rparr>) = grows s s'"
  "grows s (s'\<lparr>bets := bs\<rparr>) = grows s s'"
  "grows s (s'\<lparr>loans := ls\<rparr>) = grows s s'"
  by (simp_all add: grows_def entries_of_def credits_of_def)

lemma grows_refl [simp]: "grows s s"
  by (simp add: grows_same)

lemma credits_of_unique:
  assumes "distinct (map user_id rows)" and "x \<in> set rows"
  shows "filter (\<lambda>u. user_id u = user_id x) rows = [x]"
  using assms
proof (induction rows)
  case Nil
  then show ?case by simp
next
  case (Cons r rows)
  then show ?case
    by (cases "r = x") (auto simp: filter_empty_conv image_iff)
qed

lemma stipend_loop_grows:
  assumes "distinct (map user_id us)"
    and "\<forall>x \<in> set us. credits_of s (user_id x) = Some (credits x)"
  shows "grows s (store (stipend_loop now us [] s))"
  using assms
proof (induction us arbitrary: s)
  case Nil
  then show ?case by simp
next
  case (Cons user rest)
  have step: "grows s (store (stipend_transaction now user s))"
    using Cons.prems by (simp add: stipend_transaction_grows)
  show ?case
    unfolding stipend_loop.simps
  proof (rule grows_and_then [OF step])
    fix s1
    assume d: "stipend_transaction now user s = Done s1"
    then have s1: "s1 = s\<lparr>users := update_where (\<lambda>u. user_id u = user_id user) (grant_stipend now) (users s),
                   creditTransactions := creditTransactions s @
                     [\<lparr>tx_userId = user_id user, tx_amount = 200, tx_type = ''weekly_stipend'',
                       tx_referenceId = None, tx_description = ''Weekly credit stipend'',
                       balanceAfter = credits user + 200\<rparr>]\<rparr>"
      by (auto simp: stipend_transaction_def split: if_splits)
    have "credits_of s1 (user_id x) = Some (credits x)" if "x \<in> set rest" for x
    proof -
      from Cons.prems(1) have "user_id user \<notin> user_id ` set rest" by simp
      with that have "user_id x \<noteq> user_id user" by (metis imageI)
      moreover from that Cons.prems(2) have "credits_of s (user_id x) = Some (credits x)" by simp
      ultimately show ?thesis
        unfolding credits_of_def s1
        using filter_update_where_same [of user_id "grant_stipend now" "user_id x" "user_id user" "users s"]
        by simp
    qed
    with Cons.prems(1) show "grows s1 (store (stipend_loop now rest [] s1))"
      by (intro Cons.IH) simp_all
  qed
qed

lemma processWeeklyStipends_grows:
  assumes "distinct (map user_id (users s))"
  shows "grows s (store (processWeeklyStipends zone rank [] now s))"
proof -
  have "credits_of s (user_id x) = Some (credits x)" if "x \<in> set (users s)" for x
    using credits_of_unique [OF assms that] by (simp add: credits_of_def)
  moreover have "distinct (map user_id (sort_key rank (filter p (users s))))" for p
  proof -
    from assms have "distinct (map user_id (filter p (users s)))"
      by (simp add: distinct_map_filter)
    then show ?thesis
      by (simp add: distinct_map)
  qed
  ultimately show ?thesis
    by (simp add: processWeeklyStipends_def Let_def stipend_loop_grows)
qed

lemma payout_loop_grows:
  "grows s (store (payout_loop eventId now ws s))"
proof (induction ws arbitrary: s)
  case Nil
  then show ?case by simp
next
  case (Cons w rest)
  obtain bet opt where w: "w = (bet, opt)" by (cases w)
  let ?p = "payout_of (bet_amount bet) (multiplier opt)"
  let ?s1 = "s\<lparr>bets := update_where (\<lambda>b. bet_id b = bet_id bet) (\<lambda>b. b\<lparr>bet_status := Won, payout := Some ?p\<rparr>) (bets s)\<rparr>"
  have "grows ?s1 (store (and_then (updateUserCredits (bet_userId bet) ?p ''bet_win'' ''Betting win payout'' (Some eventId) now ?s1) (payout_loop eventId now rest)))"
    by (rule grows_and_then) (rule updateUserCredits_grows, rule Cons.IH)
  then show ?case by (simp add: w Let_def)
qed

lemma run_grows:
  assumes "distinct (map user_id (users s))"
  shows "grows s (store (run oper now s))"
proof (cases oper)
  case (UpdateUserCredits userId amount type description referenceId)
  then show ?thesis by (simp add: updateUserCredits_grows)
next
  case (ProcessWeeklyStipends zone rank)
  then show ?thesis using assms by (simp add: processWeeklyStipends_grows)
next
  case (ReviewSubmission submissionId status reviewerId)
  have "grows (s\<lparr>challengeSubmissions := cs\<rparr>) (store (updateUserCredits a b c d e now (s\<lparr>challengeSubmissions := cs\<rparr>)))"
    for a b c d e cs by (rule updateUserCredits_grows)
  with ReviewSubmission show ?thesis
    by (auto simp: reviewSubmission_def Let_def split: decision.splits list.splits)
next
  case (PlaceBet newId bet)
  have "grows (s\<lparr>bets := bs\<rparr>) (store (updateUserCredits a b c d e now (s\<lparr>bets := bs\<rparr>)))"
    for a b c d e bs by (rule updateUserCredits_grows)
  with PlaceBet show ?thesis
    by (auto simp: placeBet_def Let_def)
next
  case (CancelBet betId userId)
  have "grows (s\<lparr>bets := bs\<rparr>) (store (updateUserCredits a b c d e now (s\<lparr>bets := bs\<rparr>)))"
    for a b c d e bs by (rule updateUserCredits_grows)
  with CancelBet show ?thesis
    by (auto simp: cancelBet_def Let_def split: list.splits)
next
  case (ResolveBettingEvent eventId winningOption adminId)
  have "grows (s\<lparr>bettingEvents := es\<rparr>) (store (and_then (payout_loop eventId now ws (s\<lparr>bettingEvents := es\<rparr>))
             (\<lambda>s2. Done (s2\<lparr>bets := mark_lost eventId winningOption (bets s2)\<rparr>))))" for es ws
    by (rule grows_and_then) (simp_all add: payout_loop_grows)
  with ResolveBettingEvent show ?thesis
    by (simp add: resolveBettingEvent_def Let_def)
next
  case (FundLoan loanId lenderId)
  have "grows (s\<lparr>loans := ls\<rparr>) (store (and_then (updateUserCredits a b c d e now (s\<lparr>loans := ls\<rparr>))
             (updateUserCredits a' b' c' d' e' now)))" for a b c d e a' b' c' d' e' ls
    by (rule grows_and_then) (rule updateUserCredits_grows)+
  with FundLoan show ?thesis
    by (auto simp: fundLoan_def Let_def split: list.splits)
next
  case (RepayLoan loanId)
  have "grows (s\<lparr>loans := ls\<rparr>) (store (and_then (updateUserCredits a b c d e now (s\<lparr>loans := ls\<rparr>))
             (updateUserCredits a' b' c' d' e' now)))" for a b c d e a' b' c' d' e' ls
    by (rule grows_and_then) (rule updateUserCredits_grows)+
  with RepayLoan show ?thesis
    by (auto simp: repayLoan_def Let_def split: list.splits option.splits)
qed

lemma update_where_none: "\<forall>x \<in> set rows. \<not> p x \<Longrightarrow> update_where p f rows = rows"
  by (induction rows) (auto simp: update_where_def)

lemma payout_values:
  "payout_of 100 115 = 114" "payout_of 50 115 = 57" "payout_of 300 200 = 600"
  by (simp_all add: float_defs Let_def)

lemma finished_eq:
  "finished =
     \<lparr>users = [\<lparr>user_id = ''ann'', credits = 214, lastStipendDate = None, user_updatedAt = Some 9\<rparr>,
               player ''bob'' 200],
      challenges = [],
      challengeSubmissions = [],
      bettingEvents = [\<lparr>event_id = ''derby'', event_status = EvResolved,
                        ev_winningOptionId = Some ''blue'', resolvedAt = Some 9\<rparr>],
      bettingOptions = [\<lparr>option_id = ''red'', opt_eventId = ''derby'', multiplier = 200\<rparr>,
                        \<lparr>option_id = ''blue'', opt_eventId = ''derby'', multiplier = 115\<rparr>],
      bets = [\<lparr>bet_id = ''b1'', bet_eventId = ''derby'', bet_optionId = ''blue'', bet_userId = ''ann'',
                bet_amount = 100, bet_status = Won, payout = Some 114\<rparr>],
      loans = [],
      creditTransactions = [stipend_row ''ann'' 200, stipend_row ''bob'' 200,
                            ledger_row ''ann'' (- 100) ''bet_placed'' ''derby'' 100,
                            \<lparr>tx_userId = ''ann'', tx_amount = 114, tx_type = ''bet_win'',
                              tx_referenceId = Some ''derby'', tx_description = ''Betting win payout'',
                              balanceAfter = 214\<rparr>]\<rparr>"
  by (simp add: finished_def storage_defs example_defs Let_def payout_values)

lemma settled_eq:
  "settled =
     \<lparr>users = [\<lparr>user_id = ''ann'', credits = 214, lastStipendDate = None, user_updatedAt = Some 9\<rparr>,
               \<lparr>user_id = ''bob'', credits = 150, lastStipendDate = None, user_updatedAt = Some 10\<rparr>],
      challenges = [],
      challengeSubmissions = [],
      bettingEvents = [\<lparr>event_id = ''derby'', event_status = EvResolved,
                        ev_winningOptionId = Some ''blue'', resolvedAt = Some 9\<rparr>],
      bettingOptions = [\<lparr>option_id = ''red'', opt_eventId = ''derby'', multiplier = 200\<rparr>,
                        \<lparr>option_id = ''blue'', opt_eventId = ''derby'', multiplier = 115\<rparr>],
      bets = [\<lparr>bet_id = ''b1'', bet_eventId = ''derby'', bet_optionId = ''blue'', bet_userId = ''ann'',
                bet_amount = 100, bet_status = Won, payout = Some 114\<rparr>,
              active_bet ''b2'' ''derby'' ''blue'' ''bob'' 50],
      loans = [],
      creditTransactions = [stipend_row ''ann'' 200, stipend_row ''bob'' 200,
                            ledger_row ''ann'' (- 100) ''bet_placed'' ''derby'' 100,
                            \<lparr>tx_userId = ''ann'', tx_amount = 114, tx_type = ''bet_win'',
                              tx_referenceId = Some ''derby'', tx_description = ''Betting win payout'',
                              balanceAfter = 214\<rparr>,
                            \<lparr>tx_userId = ''bob'', tx_amount = - 50, tx_type = ''bet_placed'',
                              tx_referenceId = Some ''derby'', tx_description = ''Bet placed'',
                              balanceAfter = 150\<rparr>]\<rparr>"
  unfolding settled_def finished_eq
  by (simp add: storage_defs example_defs Let_def)

lemma updateUserCredits_store:
  "\<exists>us ts. store (updateUserCredits userId amount type description referenceId now s)
     = s\<lparr>users := us, creditTransactions := ts\<rparr>"
proof (cases "updateUserCredits userId amount type description referenceId now s")
  case (Done s')
  from updateUserCredits_Done [OF Done] show ?thesis
    using Done by auto
next
  case (Threw e s')
  have "s = s\<lparr>users := users s, creditTransactions := creditTransactions s\<rparr>" by simp
  with Threw updateUserCredits_Threw [OF Threw] show ?thesis
    by (metis store.simps(2))
qed

lemma payout_loop_store:
  "\<exists>us ts g. store (payout_loop eventId now ws s)
       = s\<lparr>users := us, creditTransactions := ts, bets := map g (bets s)\<rparr>
     \<and> (\<forall>b. bet_id b \<notin> bet_id ` fst ` set ws \<longrightarrow> g b = b)"
proof (induction ws arbitrary: s)
  case Nil
  have "s = s\<lparr>users := users s, creditTransactions := creditTransactions s, bets := map id (bets s)\<rparr>"
    by simp
  then show ?case
    by (metis payout_loop.simps(1) store.simps(1) id_apply)
next
  case (Cons w rest)
  obtain bet opt where w: "w = (bet, opt)" by (cases w)
  let ?p = "payout_of (bet_amount bet) (multiplier opt)"
  let ?h = "\<lambda>b. if bet_id b = bet_id bet then b\<lparr>bet_status := Won, payout := Some ?p\<rparr> else b"
  let ?s1 = "s\<lparr>bets := map ?h (bets s)\<rparr>"
  have s1: "s\<lparr>bets := update_where (\<lambda>b. bet_id b = bet_id bet)
                 (\<lambda>b. b\<lparr>bet_status := Won, payout := Some ?p\<rparr>) (bets s)\<rparr> = ?s1"
    by (simp add: update_where_def)
  have h: "?h b = b" if "bet_id b \<notin> bet_id ` fst ` set (w # rest)" for b
    using that by (simp add: w)
  show ?case
  proof (cases "int4 ?p")
    case False
    then have "store (payout_loop eventId now (w # rest) s)
        = s\<lparr>users := users s, creditTransactions := creditTransactions s, bets := map ?h (bets s)\<rparr>"
      by (simp add: w Let_def s1)
    with h show ?thesis by blast
  next
    case True
    let ?r = "updateUserCredits (bet_userId bet) ?p ''bet_win'' ''Betting win payout'' (Some eventId) now ?s1"
    from True have loop: "payout_loop eventId now (w # rest) s = and_then ?r (payout_loop eventId now rest)"
      by (simp add: w Let_def s1)
    show ?thesis
    proof (cases ?r)
      case (Threw e s2)
      from updateUserCredits_Threw [OF Threw] Threw loop
      have "store (payout_loop eventId now (w # rest) s)
          = s\<lparr>users := users s, creditTransactions := creditTransactions s, bets := map ?h (bets s)\<rparr>"
        by simp
      with h show ?thesis by blast
    next
      case (Done s2)
      from updateUserCredits_store [of "bet_userId bet" ?p "''bet_win''" "''Betting win payout''" "Some eventId" now ?s1] Done
      obtain us ts where s2: "s2 = ?s1\<lparr>users := us, creditTransactions := ts\<rparr>" by auto
      from Cons.IH [of s2] obtain us' ts' g where
        g: "store (payout_loop eventId now rest s2) = s2\<lparr>users := us', creditTransactions := ts', bets := map g (bets s2)\<rparr>"
        and gid: "\<forall>b. bet_id b \<notin> bet_id ` fst ` set rest \<longrightarrow> g b = b"
        by blast
      from loop Done g have "store (payout_loop eventId now (w # rest) s)
          = s\<lparr>users := us', creditTransactions := ts', bets := map (g \<circ> ?h) (bets s)\<rparr>"
        by (simp add: s2)
      moreover have "(g \<circ> ?h) b = b" if "bet_id b \<notin> bet_id ` fst ` set (w # rest)" for b
        using that gid by (simp add: w)
      ultimately show ?thesis by blast
    qed
  qed
qed

lemma payout_loop_ledger:
  "\<exists>new. creditTransactions (store (payout_loop eventId now ws s)) = creditTransactions s @ new
     \<and> (\<forall>t \<in> set new. tx_type t = ''bet_win'' \<and> tx_referenceId t = Some eventId \<and>
           (\<exists>(b, opt) \<in> set ws. tx_userId t = bet_userId b
                \<and> tx_amount t = payout_of (bet_amount b) (multiplier opt)))"
proof (induction ws arbitrary: s)
  case Nil
  then show ?case by simp
next
  case (Cons w rest)
  obtain bet opt where w: "w = (bet, opt)" by (cases w)
  let ?p = "payout_of (bet_amount bet) (multiplier opt)"
  let ?s1 = "s\<lparr>bets := update_where (\<lambda>b. bet_id b = bet_id bet)
                 (\<lambda>b. b\<lparr>bet_status := Won, payout := Some ?p\<rparr>) (bets s)\<rparr>"
  let ?r = "updateUserCredits (bet_userId bet) ?p ''bet_win'' ''Betting win payout'' (Some eventId) now ?s1"
  show ?case
  proof (cases "int4 ?p \<and> returned ?r")
    case False
    then have "creditTransactions (store (payout_loop eventId now (w # rest) s)) = creditTransactions s @ []"
      by (cases ?r) (auto simp: w Let_def dest: updateUserCredits_Threw)
    then show ?thesis by (metis empty_iff list.set(1))
  next
    case True
    then obtain s2 where Done: "?r = Done s2" by (cases ?r) auto
    from updateUserCredits_Done [OF Done] obtain c where
      s2: "creditTransactions s2 = creditTransactions s @
             [\<lparr>tx_userId = bet_userId bet, tx_amount = ?p, tx_type = ''bet_win'',
               tx_referenceId = Some eventId, tx_description = ''Betting win payout'',
               balanceAfter = c\<rparr>]" (is "_ = _ @ [?t]")
      by auto
    from Cons.IH [of s2] obtain new where
      new: "creditTransactions (store (payout_loop eventId now rest s2)) = creditTransactions s2 @ new"
      and all: "\<forall>t \<in> set new. tx_type t = ''bet_win'' \<and> tx_referenceId t = Some eventId \<and>
           (\<exists>(b, opt) \<in> set rest. tx_userId t = bet_userId b
                \<and> tx_amount t = payout_of (bet_amount b) (multiplier opt))"
      by blast
    from True Done new s2
    have "creditTransactions (store (payout_loop eventId now (w # rest) s)) = creditTransactions s @ (?t # new)"
      by (simp add: w Let_def)
    moreover have "\<forall>t \<in> set (?t # new). tx_type t = ''bet_win'' \<and> tx_referenceId t = Some eventId \<and>
           (\<exists>(b, opt) \<in> set (w # rest). tx_userId t = bet_userId b
                \<and> tx_amount t = payout_of (bet_amount b) (multiplier opt))"
      using all by (auto simp: w)
    ultimately show ?thesis by blast
  qed
qed

lemma winningBets_frame:
  "winningBets eventId winningOption (s\<lparr>bettingEvents := es\<rparr>) = winningBets eventId winningOption s"
  by (simp add: winningBets_def)

lemma winningBets_member:
  "(b, opt) \<in> set (winningBets eventId winningOption s) \<Longrightarrow>
   b \<in> set (bets s) \<and> bet_eventId b = eventId \<and> bet_status b = Active"
  by (auto simp: winningBets_def)

lemma resolveBettingEvent_grows:
  "grows s (store (resolveBettingEvent eventId winningOption adminId now s))"
proof -
  have "grows (s\<lparr>bettingEvents := es\<rparr>) (store (and_then (payout_loop eventId now ws (s\<lparr>bettingEvents := es\<rparr>))
             (\<lambda>s2. Done (s2\<lparr>bets := mark_lost eventId winningOption (bets s2)\<rparr>))))" for es ws
    by (rule grows_and_then) (simp_all add: payout_loop_grows)
  then show ?thesis
    by (simp add: resolveBettingEvent_def Let_def)
qed

lemma list_all2_map_same: "list_all2 P xs (map g xs) \<longleftrightarrow> (\<forall>x \<in> set xs. P x (g x))"
  by (induction xs) auto

lemma filter_unique:
  assumes "distinct (map key rows)" and "filter (\<lambda>x. key x = k) rows = x # rest"
  shows "rest = []"
proof -
  from assms(1) have "distinct (map key (filter (\<lambda>x. key x = k) rows))"
    by (simp add: distinct_map_filter)
  moreover have "\<forall>y \<in> set (filter (\<lambda>x. key x = k) rows). key y = k" by simp
  ultimately show ?thesis
    unfolding assms(2) by (cases rest) auto
qed

lemma credits_of_row:
  assumes "distinct (map user_id (users s))" and "credits_of s uid = Some c"
  shows "\<exists>u. filter (\<lambda>u. user_id u = uid) (users s) = [u] \<and> credits u = c"
proof -
  from assms(2) obtain u rest where f: "filter (\<lambda>u. user_id u = uid) (users s) = u # rest" and "credits u = c"
    by (auto simp: credits_of_def split: list.splits)
  with filter_unique [OF assms(1) f] show ?thesis by simp
qed

lemma updateUserCredits_ok:
  assumes "distinct (map user_id (users s))" and "credits_of s userId = Some c"
    and "int4 amount" and "int4 (c + amount)"
  shows "updateUserCredits userId amount type description referenceId now s =
         Done (s\<lparr>users := update_where (\<lambda>u. user_id u = userId) (add_credits amount now) (users s),
                 creditTransactions := creditTransactions s @
                   [\<lparr>tx_userId = userId, tx_amount = amount, tx_type = type,
                     tx_referenceId = referenceId, tx_description = description,
                     balanceAfter = c + amount\<rparr>]\<rparr>)"
proof -
  from credits_of_row [OF assms(1,2)] obtain u where
    "filter (\<lambda>u. user_id u = userId) (users s) = [u]" "credits u = c" by blast
  with assms(3,4) show ?thesis
    by (simp add: updateUserCredits_def returning_def Let_def)
qed

lemma credits_of_update_where:
  assumes "\<And>u. user_id (f u) = user_id u"
  shows "credits_of (s\<lparr>users := update_where (\<lambda>u. user_id u = userId) f (users s), creditTransactions := ts\<rparr>) uid
         = (if uid = userId then map_option (\<lambda>u. credits (f u)) (case filter (\<lambda>u. user_id u = uid) (users s) of [] \<Rightarrow> None | u # _ \<Rightarrow> Some u)
            else credits_of s uid)"
  using filter_update_where_same [of user_id f uid userId "users s"] assms
  by (auto simp: credits_of_def split: list.splits)

lemma credits_of_credited:
  "credits_of s userId = Some c \<Longrightarrow>
   credits_of (s\<lparr>users := update_where (\<lambda>u. user_id u = userId) (add_credits amount now) (users s),
                 creditTransactions := ts\<rparr>) uid
   = (if uid = userId then Some (c + amount) else credits_of s uid)"
  by (subst credits_of_update_where) (auto simp: credits_of_def split: list.splits)

lemma credits_of_frame [simp]:
  "credits_of (s\<lparr>challengeSubmissions := cs\<rparr>) uid = credits_of s uid"
  "credits_of (s\<lparr>bettingEvents := es\<rparr>) uid = credits_of s uid"
  "credits_of (s\<lparr>bets := bs\<rparr>) uid = credits_of s uid"
  "credits_of (s\<lparr>loans := ls\<rparr>) uid = credits_of s uid"
  by (simp_all add: credits_of_def)

lemma distinct_credited:
  "distinct (map user_id (users s)) \<Longrightarrow>
   distinct (map user_id (update_where p (add_credits amount now) (users s)))"
  by (simp add: map_key_update_where)

lemma user_exists_credits_of:
  assumes "credits_of s uid = Some c"
  shows "user_exists s uid"
proof -
  from assms obtain u rest where "filter (\<lambda>u. user_id u = uid) (users s) = u # rest"
    by (auto simp: credits_of_def split: list.splits)
  then have "u \<in> set (filter (\<lambda>u. user_id u = uid) (users s))" by simp
  then show ?thesis by (auto simp: user_exists_def list_ex_iff)
qed

lemma int4_between: "int4 (c - a) \<Longrightarrow> int4 (c + a) \<Longrightarrow> int4 c"
  by (auto simp: int4_def)

lemma funded_eq:
  "funded =
     \<lparr>users = [\<lparr>user_id = ''ann'', credits = 250, lastStipendDate = None, user_updatedAt = Some 20\<rparr>,
               \<lparr>user_id = ''bob'', credits = 150, lastStipendDate = None, user_updatedAt = Some 20\<rparr>,
               player ''cal'' 200],
      challenges = [],
      challengeSubmissions = [],
      bettingEvents = [],
      bettingOptions = [],
      bets = [],
      loans = [\<lparr>loan_id = ''l1'', loan_borrowerId = ''ann'', loan_lenderId = Some ''bob'',
                loan_amount = 50, totalRepayment = 55, loan_status = Funded, fundedAt = Some 20,
                repaidAt = None\<rparr>],
      creditTransactions = [stipend_row ''ann'' 200, stipend_row ''bob'' 200, stipend_row ''cal'' 200,
                            \<lparr>tx_userId = ''bob'', tx_amount = - 50, tx_type = ''loan_funded'',
                              tx_referenceId = Some ''l1'',
                              tx_description = ''Loan funded to another user'', balanceAfter = 150\<rparr>,
                            \<lparr>tx_userId = ''ann'', tx_amount = 50, tx_type = ''loan_received'',
                              tx_referenceId = Some ''l1'',
                              tx_description = ''Loan received from another user'',
                              balanceAfter = 250\<rparr>]\<rparr>"
  by (simp add: funded_def bank_def storage_defs example_defs Let_def)

lemma repaid_eq:
  "repaid =
     \<lparr>users = [\<lparr>user_id = ''ann'', credits = 195, lastStipendDate = None, user_updatedAt = Some 22\<rparr>,
               \<lparr>user_id = ''bob'', credits = 205, lastStipendDate = None, user_updatedAt = Some 22\<rparr>,
               player ''cal'' 200],
      challenges = [],
      challengeSubmissions = [],
      bettingEvents = [],
      bettingOptions = [],
      bets = [],
      loans = [\<lparr>loan_id = ''l1'', loan_borrowerId = ''ann'', loan_lenderId = Some ''bob'',
                loan_amount = 50, totalRepayment = 55, loan_status = Repaid, fundedAt = Some 20,
                repaidAt = Some 22\<rparr>],
      creditTransactions = [stipend_row ''ann'' 200, stipend_row ''bob'' 200, stipend_row ''cal'' 200,
                            \<lparr>tx_userId = ''bob'', tx_amount = - 50, tx_type = ''loan_funded'',
                              tx_referenceId = Some ''l1'',
                              tx_description = ''Loan funded to another user'', balanceAfter = 150\<rparr>,
                            \<lparr>tx_userId = ''ann'', tx_amount = 50, tx_type = ''loan_received'',
                              tx_referenceId = Some ''l1'',
                              tx_description = ''Loan received from another user'',
                              balanceAfter = 250\<rparr>,
                            \<lparr>tx_userId = ''ann'', tx_amount = - 55, tx_type = ''loan_repaid'',
                              tx_referenceId = Some ''l1'', tx_description = ''Loan repayment'',
                              balanceAfter = 195\<rparr>,
                            \<lparr>tx_userId = ''bob'', tx_amount = 55, tx_type = ''loan_repaid_received'',
                              tx_referenceId = Some ''l1'',
                              tx_description = ''Loan repayment received'', balanceAfter = 205\<rparr>]\<rparr>"
  unfolding repaid_def funded_eq
  by (simp add: storage_defs example_defs Let_def)

lemma cancelled_eq:
  "cancelled =
     \<lparr>users = [\<lparr>user_id = ''ann'', credits = 200, lastStipendDate = None, user_updatedAt = Some 5\<rparr>,
               player ''bob'' 200],
      challenges = [],
      challengeSubmissions = [],
      bettingEvents = [\<lparr>event_id = ''derby'', event_status = EvOpen, ev_winningOptionId = None,
                        resolvedAt = None\<rparr>],
      bettingOptions = [\<lparr>option_id = ''red'', opt_eventId = ''derby'', multiplier = 200\<rparr>,
                        \<lparr>option_id = ''blue'', opt_eventId = ''derby'', multiplier = 115\<rparr>],
      bets = [\<lparr>bet_id = ''b1'', bet_eventId = ''derby'', bet_optionId = ''blue'', bet_userId = ''ann'',
                bet_amount = 100, bet_status = Cancelled, payout = None\<rparr>],
      loans = [],
      creditTransactions = [stipend_row ''ann'' 200, stipend_row ''bob'' 200,
                            ledger_row ''ann'' (- 100) ''bet_placed'' ''derby'' 100,
                            \<lparr>tx_userId = ''ann'', tx_amount = 100, tx_type = ''bet_cancelled'',
                              tx_referenceId = Some ''derby'',
                              tx_description = ''Bet cancelled and refunded'', balanceAfter = 200\<rparr>]\<rparr>"
  by (simp add: cancelled_def storage_defs example_defs Let_def)

lemma approved_eq:
  "approved =
     \<lparr>users = [\<lparr>user_id = ''ann'', credits = 230, lastStipendDate = None, user_updatedAt = Some 30\<rparr>,
               player ''zed'' 0],
      challenges = [\<lparr>challenge_id = ''ch1'', challenge_title = ''Run'', reward = 30\<rparr>],
      challengeSubmissions = [\<lparr>submission_id = ''sb1'', sub_challengeId = ''ch1'', sub_userId = ''ann'',
                               sub_status = SubApproved, reviewedBy = Some ''zed'',
                               reviewedAt = Some 30\<rparr>],
      bettingEvents = [],
      bettingOptions = [],
      bets = [],
      loans = [],
      creditTransactions = [stipend_row ''ann'' 200,
                            \<lparr>tx_userId = ''ann'', tx_amount = 30, tx_type = ''challenge_reward'',
                              tx_referenceId = Some ''ch1'',
                              tx_description = ''Challenge completed: Run'', balanceAfter = 230\<rparr>]\<rparr>"
  by (simp add: approved_def school_def storage_defs example_defs Let_def)

lemma transaction_Threw:
  "transaction s r = Threw e s' \<Longrightarrow> \<exists>s1. r = Threw e s1 \<and> s' = rollback s s1"
  by (cases r) auto

lemma transaction_updateUserCredits_Threw:
  assumes "transaction s (updateUserCredits userId amount type description referenceId now s1) = Threw e s'"
  shows "s' = rollback s s1"
proof -
  from transaction_Threw [OF assms] obtain s2 where
    "updateUserCredits userId amount type description referenceId now s1 = Threw e s2"
    "s' = rollback s s2" by blast
  with updateUserCredits_Threw [OF this(1)] show ?thesis by simp
qed

lemma rollback_own_tables [simp]:
  "rollback s (s\<lparr>challengeSubmissions := cs\<rparr>) = s"
  "rollback s (s\<lparr>bets := bs\<rparr>) = s"
  "rollback s (s\<lparr>loans := ls\<rparr>) = s"
  by (simp_all add: rollback_def)

text \<open>
  The two credit steps of \<open>fundLoan\<close> are separate transactions. When the second one throws,
  here because the borrower's balance would leave the integer range, the loan row is rolled
  back to pending while the lender's debit and its audit row stay.
\<close>

lemma fundLoan_second_step_throws:
  "fundLoan ''l1'' ''bob'' 20 brim =
     Threw IntegerOutOfRange
       (brim\<lparr>users := [player ''ann'' 2147483647,
                        \<lparr>user_id = ''bob'', credits = 150, lastStipendDate = None,
                          user_updatedAt = Some 20\<rparr>],
              creditTransactions :=
                [\<lparr>tx_userId = ''bob'', tx_amount = - 50, tx_type = ''loan_funded'',
                  tx_referenceId = Some ''l1'', tx_description = ''Loan funded to another user'',
                  balanceAfter = 150\<rparr>]\<rparr>)"
  by (simp add: brim_def storage_defs example_defs Let_def)

subsection \<open>The payout: floats that are exact, and what a resolution writes\<close>

lemma bitlen_bounds: "0 < n \<Longrightarrow> 2 ^ (bitlen n - 1) \<le> n \<and> n < 2 ^ bitlen n"
proof (induction n rule: bitlen.induct)
  case (1 n)
  show ?case
  proof (cases "n div 2 = 0")
    case True
    with "1.prems" have "n = 1" by (simp add: div_eq_0_iff) 
    then show ?thesis by (simp add: bitlen.simps)
  next
    case False
    with "1.IH" "1.prems" have ih: "2 ^ (bitlen (n div 2) - 1) \<le> n div 2" "n div 2 < 2 ^ bitlen (n div 2)"
      by auto
    from False have pos: "0 < bitlen (n div 2)" by (subst bitlen.simps) simp
    have b: "bitlen n = Suc (bitlen (n div 2))"
      using "1.prems" by (subst bitlen.simps) simp
    from ih(1) have "2 * 2 ^ (bitlen (n div 2) - 1) \<le> n" by simp
    with pos have lo: "2 ^ (bitlen n - 1) \<le> n"
      by (simp add: b power_eq_if)
    from ih(2) have "n < 2 * 2 ^ bitlen (n div 2)" by simp
    with lo show ?thesis by (simp add: b)
  qed
qed

lemma floor_log2_less:
  assumes "0 < a" and "0 < d" and "a < d * 2 ^ n"
  shows "floor_log2 a d < int n"
proof -
  define k where "k = int (bitlen (nat a)) - int (bitlen (nat d))"
  have le: "k \<le> int n"
  proof -
    from assms(1) have "0 < nat a" by simp
    from bitlen_bounds [OF this] have "2 ^ (bitlen (nat a) - 1) \<le> nat a" by blast
    then have "int (2 ^ (bitlen (nat a) - 1)) \<le> int (nat a)" by (simp only: of_nat_le_iff)
    then have lo: "(2::int) ^ (bitlen (nat a) - 1) \<le> a"
      using assms(1) by simp
    from assms(2) have "0 < nat d" by simp
    from bitlen_bounds [OF this] have "nat d < 2 ^ bitlen (nat d)" by blast
    then have "int (nat d) < int (2 ^ bitlen (nat d))" by (simp only: of_nat_less_iff)
    then have hi: "d < 2 ^ bitlen (nat d)"
      using assms(2) by simp
    note lo
    also note assms(3)
    also from hi have "d * 2 ^ n < 2 ^ bitlen (nat d) * 2 ^ n" by simp
    also have "(2::int) ^ bitlen (nat d) * 2 ^ n = 2 ^ (bitlen (nat d) + n)"
      by (simp add: power_add)
    finally have "(2::int) ^ (bitlen (nat a) - 1) < 2 ^ (bitlen (nat d) + n)" .
    then have "bitlen (nat a) - 1 < bitlen (nat d) + n"
      by simp
    then show ?thesis by (simp add: k_def)
  qed
  let ?c = "if 0 \<le> k then d * 2 ^ nat k \<le> a else d \<le> a * 2 ^ nat (- k)"
  have fl: "floor_log2 a d = (if ?c then k else k - 1)"
    unfolding floor_log2_def k_def Let_def ..
  show ?thesis
  proof (cases ?c)
    case False
    then have "floor_log2 a d = k - 1"
      unfolding fl by (rule if_not_P)
    with le show ?thesis by linarith
  next
    case True
    then have eq: "floor_log2 a d = k"
      unfolding fl by (rule if_P)
    have "k < int n"
    proof (cases "0 \<le> k")
      case False
      then show ?thesis by linarith
    next
      case nonneg: True
      with True have "d * 2 ^ nat k \<le> a" by (simp only: if_True)
      from this assms(3) have "d * 2 ^ nat k < d * 2 ^ n" by (rule le_less_trans)
      with assms(2) have "(2::int) ^ nat k < 2 ^ n"
        by (simp only: mult_less_cancel_left_pos)
      then have "nat k < n" by simp
      with nonneg show ?thesis by linarith
    qed
    with eq show ?thesis by simp
  qed
qed

lemma round_half_even_exact: "0 < d \<Longrightarrow> round_half_even (q * d) d = q"
  by (simp add: round_half_even_def Let_def)

lemma binary64_exact:
  assumes "0 < d" and "\<bar>q\<bar> < 2 ^ 53"
  shows "\<exists>e. e \<le> 0 \<and> binary64 (q * d) d = (q * 2 ^ nat (- e), e)"
proof (cases "q = 0")
  case True
  then show ?thesis by (simp add: binary64_def)
next
  case False
  let ?a = "\<bar>q * d\<bar>"
  let ?e = "floor_log2 ?a d - 52"
  from False assms(1) have pos: "0 < ?a" by simp
  have "?a = \<bar>q\<bar> * d" using assms(1) by (simp add: abs_mult)
  with assms have "?a < d * 2 ^ 53" by (simp add: mult.commute)
  from floor_log2_less [OF pos assms(1) this] have e: "?e \<le> 0" by simp
  have m: "(if 0 \<le> ?e then round_half_even ?a (d * 2 ^ nat ?e)
           else round_half_even (?a * 2 ^ nat (- ?e)) d) = \<bar>q\<bar> * 2 ^ nat (- ?e)"
  proof (cases "?e = 0")
    case True
    then show ?thesis
      using round_half_even_exact [OF assms(1), of "\<bar>q\<bar>"] \<open>?a = \<bar>q\<bar> * d\<close> by simp
  next
    case False
    with e have neg: "\<not> 0 \<le> ?e" by simp
    have "?a * 2 ^ nat (- ?e) = (\<bar>q\<bar> * 2 ^ nat (- ?e)) * d"
      using \<open>?a = \<bar>q\<bar> * d\<close> by (simp add: mult.assoc mult.commute mult.left_commute)
    then have "round_half_even (?a * 2 ^ nat (- ?e)) d = \<bar>q\<bar> * 2 ^ nat (- ?e)"
      using round_half_even_exact [OF assms(1), of "\<bar>q\<bar> * 2 ^ nat (- ?e)"] by (simp only:)
    with neg show ?thesis by (simp only: if_False)
  qed
  have "sgn (q * d) = sgn q" using assms(1) by (simp add: sgn_mult)
  then have "sgn (q * d) * (\<bar>q\<bar> * 2 ^ nat (- ?e)) = q * 2 ^ nat (- ?e)"
    by (simp add: mult.assoc [symmetric] mult_sgn_abs)
  with m False assms(1) have "binary64 (q * d) d = (q * 2 ^ nat (- ?e), ?e)"
    by (simp add: binary64_def Let_def del: abs_mult)
  with e show ?thesis by blast
qed

lemma Math_floor_exact: "e \<le> 0 \<Longrightarrow> Math_floor (q * 2 ^ nat (- e), e) = q"
  by (simp add: Math_floor_def)

lemma payout_of_whole_multiplier:
  assumes "\<bar>amount * k\<bar> < 2 ^ 53"
  shows "payout_of amount (100 * k) = amount * k"
proof (cases "amount = 0")
  case True
  obtain m e where pf: "parseFloat (100 * k) = (m, e)"
    by (cases "parseFloat (100 * k)")
  have "js_times 0 (m, e) = (0, 0)"
    by (simp add: js_times_def binary64_def)
  with True pf show ?thesis
    by (simp add: payout_of_def Math_floor_def)
next
  case False
  then have "1 \<le> \<bar>amount\<bar>" by simp
  then have "1 * \<bar>k\<bar> \<le> \<bar>amount\<bar> * \<bar>k\<bar>"
    by (intro mult_right_mono) simp_all
  then have "\<bar>k\<bar> \<le> \<bar>amount * k\<bar>"
    by (simp add: abs_mult)
  with assms have k: "\<bar>k\<bar> < 2 ^ 53" by simp
  have c: "100 * k = k * 100" by simp
  have "(0::int) < 100" by simp
  from binary64_exact [OF this k] obtain e1 where
    e1: "e1 \<le> 0" and pf: "parseFloat (100 * k) = (k * 2 ^ nat (- e1), e1)"
    unfolding parseFloat_def c by blast
  have "\<exists>e2. e2 \<le> 0 \<and> js_times amount (k * 2 ^ nat (- e1), e1) = (amount * k * 2 ^ nat (- e2), e2)"
  proof (cases "e1 = 0")
    case True
    have "(0::int) < 1" by simp
    from binary64_exact [OF this assms] obtain e2 where
      "e2 \<le> 0" "binary64 (amount * k * 1) 1 = (amount * k * 2 ^ nat (- e2), e2)" by blast
    with True show ?thesis
      by (intro exI [where x = e2]) (simp add: js_times_def)
  next
    case False
    with e1 have neg: "\<not> 0 \<le> e1" by simp
    have "(0::int) < 2 ^ nat (- e1)" by simp
    from binary64_exact [OF this assms] obtain e2 where
      e2: "e2 \<le> 0" "binary64 (amount * k * 2 ^ nat (- e1)) (2 ^ nat (- e1))
                      = (amount * k * 2 ^ nat (- e2), e2)" by blast
    have "js_times amount (k * 2 ^ nat (- e1), e1)
          = binary64 (amount * (k * 2 ^ nat (- e1))) (2 ^ nat (- e1))"
      using neg by (simp add: js_times_def)
    also have "amount * (k * 2 ^ nat (- e1)) = amount * k * 2 ^ nat (- e1)"
      by (simp only: mult.assoc)
    finally show ?thesis using e2 by (intro exI [where x = e2]) simp
  qed
  then obtain e2 where "e2 \<le> 0"
    "js_times amount (k * 2 ^ nat (- e1), e1) = (amount * k * 2 ^ nat (- e2), e2)" by blast
  with pf show ?thesis
    by (simp add: payout_of_def Math_floor_exact)
qed

lemma and_then_Done:
  "and_then r k = Done s' \<Longrightarrow> \<exists>s1. r = Done s1 \<and> k s1 = Done s'"
  by (cases r) auto

lemma transaction_Done: "transaction s r = Done s' \<Longrightarrow> r = Done s'"
  by (cases r) auto

lemma payout_loop_Cons_Done:
  assumes "payout_loop eventId now ((bet, opt) # rest) s = Done s'"
  shows "\<exists>s2 c. bets s2 = update_where (\<lambda>b. bet_id b = bet_id bet)
                   (\<lambda>b. b\<lparr>bet_status := Won, payout := Some (payout_of (bet_amount bet) (multiplier opt))\<rparr>)
                   (bets s)
     \<and> creditTransactions s2 = creditTransactions s @
                   [\<lparr>tx_userId = bet_userId bet, tx_amount = payout_of (bet_amount bet) (multiplier opt),
                     tx_type = ''bet_win'', tx_referenceId = Some eventId,
                     tx_description = ''Betting win payout'', balanceAfter = c\<rparr>]
     \<and> payout_loop eventId now rest s2 = Done s'"
proof -
  let ?p = "payout_of (bet_amount bet) (multiplier opt)"
  let ?s1 = "s\<lparr>bets := update_where (\<lambda>b. bet_id b = bet_id bet)
                   (\<lambda>b. b\<lparr>bet_status := Won, payout := Some ?p\<rparr>) (bets s)\<rparr>"
  from assms have i: "int4 ?p"
    by (simp add: Let_def split: if_splits)
  with assms have "and_then (updateUserCredits (bet_userId bet) ?p ''bet_win'' ''Betting win payout''
                     (Some eventId) now ?s1) (payout_loop eventId now rest) = Done s'"
    by (simp add: Let_def)
  from and_then_Done [OF this] obtain s2 where
    u: "updateUserCredits (bet_userId bet) ?p ''bet_win'' ''Betting win payout'' (Some eventId) now ?s1 = Done s2"
    and l: "payout_loop eventId now rest s2 = Done s'" by blast
  from updateUserCredits_Done [OF u] obtain c where
    s2: "s2 = ?s1\<lparr>users := update_where (\<lambda>u. user_id u = bet_userId bet) (add_credits ?p now) (users ?s1),
               creditTransactions := creditTransactions ?s1 @
                 [\<lparr>tx_userId = bet_userId bet, tx_amount = ?p, tx_type = ''bet_win'',
                   tx_referenceId = Some eventId, tx_description = ''Betting win payout'',
                   balanceAfter = c\<rparr>]\<rparr>" by blast
  show ?thesis
    by (intro exI [where x = s2] exI [where x = c] conjI l) (simp_all add: s2)
qed

lemma payout_loop_Done_ledger:
  "payout_loop eventId now ws s = Done s' \<Longrightarrow>
   \<exists>new. creditTransactions s' = creditTransactions s @ new
     \<and> list_all2 (\<lambda>t (b, opt). tx_userId t = bet_userId b \<and> tx_type t = ''bet_win''
                      \<and> tx_amount t = payout_of (bet_amount b) (multiplier opt)) new ws"
proof (induction ws arbitrary: s)
  case Nil
  then show ?case by simp
next
  case (Cons w rest)
  obtain bet opt where w: "w = (bet, opt)" by (cases w)
  from payout_loop_Cons_Done [OF Cons.prems [unfolded w]] obtain s2 c where
    s2: "creditTransactions s2 = creditTransactions s @
           [\<lparr>tx_userId = bet_userId bet, tx_amount = payout_of (bet_amount bet) (multiplier opt),
             tx_type = ''bet_win'', tx_referenceId = Some eventId,
             tx_description = ''Betting win payout'', balanceAfter = c\<rparr>]" (is "_ = _ @ [?t]")
    and l: "payout_loop eventId now rest s2 = Done s'" by blast
  from Cons.IH [OF l] obtain new where
    "creditTransactions s' = creditTransactions s2 @ new"
    "list_all2 (\<lambda>t (b, opt). tx_userId t = bet_userId b \<and> tx_type t = ''bet_win''
                      \<and> tx_amount t = payout_of (bet_amount b) (multiplier opt)) new rest"
    by blast
  with s2 have "creditTransactions s' = creditTransactions s @ (?t # new)
     \<and> list_all2 (\<lambda>t (b, opt). tx_userId t = bet_userId b \<and> tx_type t = ''bet_win''
                      \<and> tx_amount t = payout_of (bet_amount b) (multiplier opt)) (?t # new) (w # rest)"
    by (simp add: w)
  then show ?case by blast
qed

lemma payout_loop_Done_bets:
  assumes "payout_loop eventId now ws s = Done s'"
    and "distinct (map (bet_id \<circ> fst) ws)"
    and "(b, opt) \<in> set ws" and "r \<in> set (bets s)" and "bet_id r = bet_id b"
  shows "r\<lparr>bet_status := Won, payout := Some (payout_of (bet_amount b) (multiplier opt))\<rparr>
           \<in> set (bets s')"
  using assms
proof (induction ws arbitrary: s r)
  case Nil
  then show ?case by simp
next
  case (Cons w rest)
  obtain bet opt0 where w: "w = (bet, opt0)" by (cases w)
  let ?p = "payout_of (bet_amount bet) (multiplier opt0)"
  from payout_loop_Cons_Done [OF Cons.prems(1) [unfolded w]] obtain s2 where
    b2: "bets s2 = update_where (\<lambda>x. bet_id x = bet_id bet)
                     (\<lambda>x. x\<lparr>bet_status := Won, payout := Some ?p\<rparr>) (bets s)"
    and l: "payout_loop eventId now rest s2 = Done s'" by blast
  from Cons.prems(2) have d: "distinct (map (bet_id \<circ> fst) rest)"
    and fresh: "bet_id bet \<notin> bet_id ` fst ` set rest"
    by (simp_all add: w image_image comp_def)
  show ?case
  proof (cases "(b, opt) = (bet, opt0)")
    case True
    let ?r' = "r\<lparr>bet_status := Won, payout := Some ?p\<rparr>"
    from Cons.prems(4,5) True have in2: "?r' \<in> set (bets s2)"
      unfolding b2 in_update_where by (intro bexI [where x = r]) simp_all
    from payout_loop_store [of eventId now rest s2] l obtain g where
      g: "bets s' = map g (bets s2)" "\<forall>x. bet_id x \<notin> bet_id ` fst ` set rest \<longrightarrow> g x = x"
      by (metis (no_types, lifting) db.select_convs(6) db.surjective db.update_convs(1,6,8) store.simps(1))
    from fresh Cons.prems(5) True have "bet_id ?r' \<notin> bet_id ` fst ` set rest" by simp
    with g(2) have gr: "g ?r' = ?r'" by blast
    from imageI [OF in2, of g] have "g ?r' \<in> set (bets s')"
      unfolding g(1) set_map .
    then have "?r' \<in> set (bets s')" unfolding gr .
    with True show ?thesis by simp
  next
    case False
    with Cons.prems(3) have m: "(b, opt) \<in> set rest" by (auto simp: w)
    from imageI [OF imageI [OF m, of fst], of bet_id]
    have "bet_id b \<in> bet_id ` fst ` set rest" by simp
    with fresh have "bet_id b \<noteq> bet_id bet" by metis
    with Cons.prems(4,5) have "r \<in> set (bets s2)"
      unfolding b2 in_update_where by (intro bexI [where x = r]) simp_all
    from Cons.IH [OF l d m this Cons.prems(5)] show ?thesis .
  qed
qed

lemma winningBets_distinct:
  assumes "distinct (map bet_id (bets s))" and "distinct (map option_id (bettingOptions s))"
  shows "distinct (map (bet_id \<circ> fst) (winningBets eventId winningOption s))"
proof -
  let ?ws = "filter (\<lambda>(b, opt). bet_optionId b = option_id opt) (List.product (bets s) (bettingOptions s))"
  from assms have db: "distinct (bets s)" "inj_on bet_id (set (bets s))"
    and dopt: "distinct (bettingOptions s)" "inj_on option_id (set (bettingOptions s))"
    by (simp_all add: distinct_map)
  then have "distinct ?ws"
    by (simp add: distinct_product)
  moreover have "inj_on (bet_id \<circ> fst) (set ?ws)"
  proof (rule inj_onI)
    fix x y
    assume x: "x \<in> set ?ws" and y: "y \<in> set ?ws" and e: "(bet_id \<circ> fst) x = (bet_id \<circ> fst) y"
    obtain b1 o1 b2 o2 where xy: "x = (b1, o1)" "y = (b2, o2)" by (cases x, cases y) auto
    from x y xy have mem: "b1 \<in> set (bets s)" "b2 \<in> set (bets s)"
        "o1 \<in> set (bettingOptions s)" "o2 \<in> set (bettingOptions s)"
        "bet_optionId b1 = option_id o1" "bet_optionId b2 = option_id o2"
      by auto
    from e xy mem db(2) have "b1 = b2" by (auto dest: inj_onD)
    with mem dopt(2) have "o1 = o2" by (auto dest: inj_onD)
    with \<open>b1 = b2\<close> xy show "x = y" by simp
  qed
  ultimately have "distinct (map (bet_id \<circ> fst) ?ws)"
    by (simp add: distinct_map)
  then show ?thesis
    unfolding winningBets_def by (rule distinct_map_filter)
qed

subsection \<open>Snapshots written by a call during which no other request commits\<close>

text \<open>
  When no other request commits during a call, the audit rows that the call appends for a
  player are running snapshots that start from the player's balance before the call and end
  at the balance after it, and no row is appended under an id that is not a player's. The
  user ids are the primary key of the table (\<open>distinct\<close>).
\<close>

lemma run_appends_running_balances:
  assumes "distinct (map user_id (users s))"
  shows "(\<forall>b. credits_of s uid = Some b \<longrightarrow>
            (\<exists>new. entries_of (store (run oper now s)) uid = entries_of s uid @ new
               \<and> snapshots_from b new
               \<and> credits_of (store (run oper now s)) uid = Some (b + sum_list (map tx_amount new))
               \<and> (new \<noteq> [] \<longrightarrow>
                    credits_of (store (run oper now s)) uid = Some (balanceAfter (last new)))))
         \<and> (credits_of s uid = None \<longrightarrow> entries_of (store (run oper now s)) uid = entries_of s uid)
         \<and> (newest_is_balance s uid \<longrightarrow> newest_is_balance (store (run oper now s)) uid)"
proof (cases "credits_of s uid")
  case None
  let ?s' = "store (run oper now s)"
  from run_grows [OF assms] have g: "grows s ?s'" .
  with None have e: "entries_of ?s' uid = entries_of s uid"
    by (simp add: grows_def)
  from g have "map user_id (users ?s') = map user_id (users s)"
    by (simp add: grows_def)
  with None have "credits_of ?s' uid = None"
    by (simp add: credits_of_None_iff)
  with None e show ?thesis
    by (auto simp: newest_is_balance_def split: list.splits)
next
  case (Some b)
  let ?s' = "store (run oper now s)"
  from run_grows [OF assms] Some obtain new where new:
    "entries_of ?s' uid = entries_of s uid @ new" "snapshots_from b new"
    "credits_of ?s' uid = Some (b + sum_list (map tx_amount new))"
    unfolding grows_def by blast
  have last: "credits_of ?s' uid = Some (balanceAfter (last new))" if "new \<noteq> []"
    using new(2,3) that by (simp add: snapshots_from_last)
  have "newest_is_balance ?s' uid" if "newest_is_balance s uid"
  proof (cases "new = []")
    case True
    with new that Some show ?thesis by (auto simp: newest_is_balance_def split: list.splits)
  next
    case False
    then have "rev (entries_of ?s' uid) = last new # rev (butlast new) @ rev (entries_of s uid)"
      using new(1) by (metis append_butlast_last_id rev.simps(2) rev_append rev_rev_ident append_Cons append_Nil rev_swap)
    with last [OF False] show ?thesis by (simp add: newest_is_balance_def)
  qed
  with new last Some show ?thesis by auto
qed

lemma early_bet_lobby:
  "early_bet lobby =
     lobby\<lparr>users := [\<lparr>user_id = ''ann'', credits = 970, lastStipendDate = None, user_updatedAt = Some 7\<rparr>],
           bets := [active_bet ''b1'' ''derby'' ''red'' ''ann'' 30],
           creditTransactions :=
             [\<lparr>tx_userId = ''ann'', tx_amount = - 30, tx_type = ''bet_placed'',
               tx_referenceId = Some ''derby'', tx_description = ''Bet placed'', balanceAfter = 970\<rparr>]\<rparr>"
  by (simp add: early_bet_def lobby_def storage_defs example_defs Let_def)

lemma overtaken_eq:
  "processWeeklyStipends 0 (\<lambda>u. 0) [early_bet] 7 lobby = Done overtaken
   \<and> overtaken =
     lobby\<lparr>users := [\<lparr>user_id = ''ann'', credits = 1170, lastStipendDate = Some 7, user_updatedAt = Some 7\<rparr>],
           bets := [active_bet ''b1'' ''derby'' ''red'' ''ann'' 30],
           creditTransactions :=
             [\<lparr>tx_userId = ''ann'', tx_amount = - 30, tx_type = ''bet_placed'',
               tx_referenceId = Some ''derby'', tx_description = ''Bet placed'', balanceAfter = 970\<rparr>,
              \<lparr>tx_userId = ''ann'', tx_amount = 200, tx_type = ''weekly_stipend'',
               tx_referenceId = None, tx_description = ''Weekly credit stipend'', balanceAfter = 1200\<rparr>]\<rparr>"
proof -
  have sel: "sort_key (\<lambda>u. 0::nat) (filter (eligible 0 (- 604799993)) (users lobby))
             = [player ''ann'' 1000]"
    by (simp add: lobby_def player_def eligible_def)
  have "stipend_transaction 7 (player ''ann'' 1000) (early_bet lobby) =
     Done (lobby\<lparr>users := [\<lparr>user_id = ''ann'', credits = 1170, lastStipendDate = Some 7, user_updatedAt = Some 7\<rparr>],
           bets := [active_bet ''b1'' ''derby'' ''red'' ''ann'' 30],
           creditTransactions :=
             [\<lparr>tx_userId = ''ann'', tx_amount = - 30, tx_type = ''bet_placed'',
               tx_referenceId = Some ''derby'', tx_description = ''Bet placed'', balanceAfter = 970\<rparr>,
              \<lparr>tx_userId = ''ann'', tx_amount = 200, tx_type = ''weekly_stipend'',
               tx_referenceId = None, tx_description = ''Weekly credit stipend'', balanceAfter = 1200\<rparr>]\<rparr>)"
    unfolding early_bet_lobby
    by (simp add: stipend_transaction_def user_exists_def update_where_def grant_stipend_def
          int4_def player_def lobby_def)
  then show ?thesis
    by (simp add: overtaken_def processWeeklyStipends_def Let_def sel)
qed

section \<open>The claims\<close>

text \<open>
  C1. For every player: if the player's balance equals the sum of the amounts of the player's
  audit rows before an operation of the storage interface (\<open>updateUserCredits\<close>,
  \<open>processWeeklyStipends\<close>, \<open>reviewSubmission\<close>, \<open>placeBet\<close>, \<open>cancelBet\<close>,
  \<open>resolveBettingEvent\<close>, \<open>fundLoan\<close>, \<open>repayLoan\<close>), it does so in the store the
  operation leaves, whether the operation returns or throws.
\<close>

theorem balance_equals_ledger_sum_preserved:
  assumes "balanced s uid"
  shows "balanced (store (run oper now s)) uid"
proof (cases oper)
  case (UpdateUserCredits userId amount type description referenceId)
  then show ?thesis using assms by (simp add: updateUserCredits_balanced)
next
  case (ProcessWeeklyStipends zone rank)
  then show ?thesis using assms by (simp add: processWeeklyStipends_def stipend_loop_balanced)
next
  case (ReviewSubmission submissionId status reviewerId)
  then show ?thesis using assms
    by (auto simp: reviewSubmission_def Let_def updateUserCredits_balanced split: decision.splits list.splits)
next
  case (PlaceBet newId bet)
  then show ?thesis using assms
    by (auto simp: placeBet_def Let_def updateUserCredits_balanced)
next
  case (CancelBet betId userId)
  then show ?thesis using assms
    by (auto simp: cancelBet_def Let_def updateUserCredits_balanced split: list.splits)
next
  case (ResolveBettingEvent eventId winningOption adminId)
  have "balanced (store (and_then (payout_loop eventId now (winningBets eventId winningOption (s\<lparr>bettingEvents := es\<rparr>)) (s\<lparr>bettingEvents := es\<rparr>))
             (\<lambda>s2. Done (s2\<lparr>bets := mark_lost eventId winningOption (bets s2)\<rparr>)))) uid" for es
    by (rule balanced_and_then [where s = "s\<lparr>bettingEvents := es\<rparr>"]) (auto intro: payout_loop_balanced assms)
  with ResolveBettingEvent show ?thesis
    by (simp add: resolveBettingEvent_def Let_def)
next
  case (FundLoan loanId lenderId)
  have "balanced (store (and_then (updateUserCredits a b c d e now (s\<lparr>loans := ls\<rparr>))
             (updateUserCredits a' b' c' d' e' now))) uid" for a b c d e a' b' c' d' e' ls
    by (rule balanced_and_then [where s = "s\<lparr>loans := ls\<rparr>"]) (auto intro: updateUserCredits_balanced assms)
  with FundLoan assms show ?thesis
    by (auto simp: fundLoan_def Let_def split: list.splits)
next
  case (RepayLoan loanId)
  have "balanced (store (and_then (updateUserCredits a b c d e now (s\<lparr>loans := ls\<rparr>))
             (updateUserCredits a' b' c' d' e' now))) uid" for a b c d e a' b' c' d' e' ls
    by (rule balanced_and_then [where s = "s\<lparr>loans := ls\<rparr>"]) (auto intro: updateUserCredits_balanced assms)
  with RepayLoan assms show ?thesis
    by (auto simp: repayLoan_def Let_def split: list.splits option.splits)
qed


theorem balance_equals_ledger_sum_preserved_witness:
  "balanced arena ''ann''
   \<and> balanced (store (run (CancelBet ''b1'' ''ann'') 5 arena)) ''ann''
   \<and> credits (hd (users (store (run (CancelBet ''b1'' ''ann'') 5 arena)))) = 200"
proof -
  have b: "balanced arena ''ann''"
    by (simp add: balanced_def ledger_sum_def example_defs)
  have "credits (hd (users (store (run (CancelBet ''b1'' ''ann'') 5 arena)))) = 200"
    by (simp add: storage_defs example_defs Let_def)
  with b balance_equals_ledger_sum_preserved [OF b, of "CancelBet ''b1'' ''ann''" 5]
  show ?thesis by simp
qed

text \<open>
  C2. The audit row that \<open>processWeeklyStipends\<close> writes for a player holds in \<open>balanceAfter\<close>
  the balance of the row that the run selected at its start plus 200, not the balance that
  its \<open>UPDATE\<close> leaves (\<open>updateUserCredits\<close> takes the value from the updated row). In the
  store \<open>lobby\<close> the player holds 1000 credits and has no audit row. A stipend run selects the
  player's row; before the player's transaction a bet of 30 by the player is committed
  (balance 970, audit row with \<open>balanceAfter\<close> 970); the transaction then raises the balance to
  1170 and writes an audit row of 200 with \<open>balanceAfter\<close> 1200. So that row does not hold the
  balance right after its amount was applied, and the newest row of the player does not hold
  the player's balance. The same run with nothing committed in between writes 1200 at the
  balance 1200.
\<close>

theorem stipend_balanceAfter_is_stale:
  "credits_of lobby ''ann'' = Some 1000
   \<and> entries_of lobby ''ann'' = []
   \<and> credits_of (early_bet lobby) ''ann'' = Some 970
   \<and> map balanceAfter (entries_of (early_bet lobby) ''ann'') = [970]
   \<and> processWeeklyStipends 0 (\<lambda>u. 0) [early_bet] 7 lobby = Done overtaken
   \<and> credits_of overtaken ''ann'' = Some 1170
   \<and> map tx_type (entries_of overtaken ''ann'') = [''bet_placed'', ''weekly_stipend'']
   \<and> map tx_amount (entries_of overtaken ''ann'') = [- 30, 200]
   \<and> map balanceAfter (entries_of overtaken ''ann'') = [970, 1200]
   \<and> \<not> snapshots_from 1000 (entries_of overtaken ''ann'')
   \<and> \<not> newest_is_balance overtaken ''ann''
   \<and> credits_of (store (processWeeklyStipends 0 (\<lambda>u. 0) [] 7 lobby)) ''ann'' = Some 1200
   \<and> map balanceAfter (entries_of (store (processWeeklyStipends 0 (\<lambda>u. 0) [] 7 lobby)) ''ann'') = [1200]"
proof -
  have a: "credits_of lobby ''ann'' = Some 1000 \<and> entries_of lobby ''ann'' = []"
    by (simp add: credits_of_def entries_of_def lobby_def player_def)
  have b: "credits_of (early_bet lobby) ''ann'' = Some 970
     \<and> map balanceAfter (entries_of (early_bet lobby) ''ann'') = [970]"
    unfolding early_bet_lobby by (simp add: credits_of_def entries_of_def)
  from overtaken_eq have r: "processWeeklyStipends 0 (\<lambda>u. 0) [early_bet] 7 lobby = Done overtaken" ..
  from overtaken_eq have o: "overtaken =
     lobby\<lparr>users := [\<lparr>user_id = ''ann'', credits = 1170, lastStipendDate = Some 7, user_updatedAt = Some 7\<rparr>],
           bets := [active_bet ''b1'' ''derby'' ''red'' ''ann'' 30],
           creditTransactions :=
             [\<lparr>tx_userId = ''ann'', tx_amount = - 30, tx_type = ''bet_placed'',
               tx_referenceId = Some ''derby'', tx_description = ''Bet placed'', balanceAfter = 970\<rparr>,
              \<lparr>tx_userId = ''ann'', tx_amount = 200, tx_type = ''weekly_stipend'',
               tx_referenceId = None, tx_description = ''Weekly credit stipend'', balanceAfter = 1200\<rparr>]\<rparr>" ..
  have c: "credits_of overtaken ''ann'' = Some 1170
     \<and> map tx_type (entries_of overtaken ''ann'') = [''bet_placed'', ''weekly_stipend'']
     \<and> map tx_amount (entries_of overtaken ''ann'') = [- 30, 200]
     \<and> map balanceAfter (entries_of overtaken ''ann'') = [970, 1200]
     \<and> \<not> snapshots_from 1000 (entries_of overtaken ''ann'')
     \<and> \<not> newest_is_balance overtaken ''ann''"
    unfolding o by (simp add: credits_of_def entries_of_def newest_is_balance_def)
  have d: "credits_of (store (processWeeklyStipends 0 (\<lambda>u. 0) [] 7 lobby)) ''ann'' = Some 1200
     \<and> map balanceAfter (entries_of (store (processWeeklyStipends 0 (\<lambda>u. 0) [] 7 lobby)) ''ann'') = [1200]"
    by (simp add: credits_of_def entries_of_def processWeeklyStipends_def stipend_transaction_def
          user_exists_def update_where_def grant_stipend_def int4_def eligible_def Let_def
          lobby_def player_def)
  from a b r c d show ?thesis by blast
qed

theorem stipend_balanceAfter_is_stale_witness:
  "credits_of overtaken ''ann'' \<noteq> Some (last (map balanceAfter (entries_of overtaken ''ann'')))"
  using stipend_balanceAfter_is_stale by simp

text \<open>
  C3, as stated: \<open>resolveBettingEvent\<close> on an event that is already resolved is rejected,
  creates no audit row and changes no balance and no bet. The code does not read the event's
  status. In the store \<open>settled\<close> the derby is resolved and a bet placed afterwards is active:
  resolving the derby again returns, appends a \<open>bet_win\<close> row of 57, raises the second
  player's balance from 150 to 207 and turns the bet from active to won.
\<close>

theorem resolve_resolved_event_counterexample:
  "map event_status (bettingEvents settled) = [EvResolved]
   \<and> returned (resolveBettingEvent ''derby'' ''blue'' ''admin'' 11 settled)
   \<and> map tx_amount (creditTransactions settled) = [200, 200, - 100, 114, - 50]
   \<and> map tx_amount (creditTransactions (store (resolveBettingEvent ''derby'' ''blue'' ''admin'' 11 settled)))
       = [200, 200, - 100, 114, - 50, 57]
   \<and> map credits (users settled) = [214, 150]
   \<and> map credits (users (store (resolveBettingEvent ''derby'' ''blue'' ''admin'' 11 settled))) = [214, 207]
   \<and> map bet_status (bets settled) = [Won, Active]
   \<and> map bet_status (bets (store (resolveBettingEvent ''derby'' ''blue'' ''admin'' 11 settled))) = [Won, Won]"
  unfolding settled_eq
  by (simp add: storage_defs example_defs Let_def payout_values)

text \<open>
  C3, amended: \<open>resolveBettingEvent\<close> is not rejected on a resolved event; it settles
  whatever bets of the event are active when it is called. When no bet of the event is
  active, as right after an earlier resolution, it returns, and all it changes is the event
  row (status, winning option and resolution time are written again): no audit row is created,
  no balance changes, and no bet changes its status or payout.
\<close>

theorem resolve_without_active_bets:
  assumes "\<forall>b \<in> set (bets s). bet_eventId b = eventId \<longrightarrow> bet_status b \<noteq> Active"
  shows "resolveBettingEvent eventId winningOption adminId now s =
         Done (s\<lparr>bettingEvents := update_where (\<lambda>e. event_id e = eventId)
                                     (resolve_event winningOption now) (bettingEvents s)\<rparr>)"
proof -
  have w: "winningBets eventId winningOption (s\<lparr>bettingEvents := es\<rparr>) = []" for es
    using assms by (auto simp: winningBets_def filter_empty_conv)
  have l: "mark_lost eventId winningOption (bets s) = bets s"
    unfolding mark_lost_def using assms by (intro update_where_none) auto
  show ?thesis
    by (simp add: resolveBettingEvent_def Let_def w l)
qed

theorem resolve_without_active_bets_witness:
  "map bet_status (bets finished) = [Won]
   \<and> resolveBettingEvent ''derby'' ''red'' ''admin'' 12 finished =
       Done (finished\<lparr>bettingEvents := [\<lparr>event_id = ''derby'', event_status = EvResolved,
                                         ev_winningOptionId = Some ''red'', resolvedAt = Some 12\<rparr>]\<rparr>)"
proof -
  have "\<forall>b \<in> set (bets finished). bet_eventId b = ''derby'' \<longrightarrow> bet_status b \<noteq> Active"
    by (simp add: finished_eq)
  from resolve_without_active_bets [OF this, of "''red''" "''admin''" 12]
  show ?thesis
    by (simp add: finished_eq update_where_def resolve_event_def)
qed

text \<open>
  C4, as stated: \<open>fundLoan\<close> succeeds only on a pending loan, and a loan that is not pending
  causes no state change and no credit movement. The code does not read the loan's status.
  In the store \<open>funded\<close> the loan is funded by the second player; funding it again as the
  third player returns, replaces the lender, debits the third player 50 and credits the
  borrower a second 50, with two more audit rows.
\<close>

theorem fundLoan_funded_loan_counterexample:
  "map loan_status (loans funded) = [Funded]
   \<and> map loan_lenderId (loans funded) = [Some ''bob'']
   \<and> returned (fundLoan ''l1'' ''cal'' 21 funded)
   \<and> map loan_lenderId (loans (store (fundLoan ''l1'' ''cal'' 21 funded))) = [Some ''cal'']
   \<and> map credits (users funded) = [250, 150, 200]
   \<and> map credits (users (store (fundLoan ''l1'' ''cal'' 21 funded))) = [300, 150, 150]
   \<and> map tx_amount (creditTransactions funded) = [200, 200, 200, - 50, 50]
   \<and> map tx_amount (creditTransactions (store (fundLoan ''l1'' ''cal'' 21 funded)))
       = [200, 200, 200, - 50, 50, - 50, 50]"
  unfolding funded_eq
  by (simp add: storage_defs example_defs Let_def)

text \<open>
  C4, amended: \<open>fundLoan\<close> acts on a loan of any status. When a loan with the given id
  exists, the lender and the borrower exist and the amounts stay within the integer range, it
  returns, sets the loan's status to funded, records the lender and the funding time, and
  moves the amount from the lender to the borrower as exactly two audit rows: a
  \<open>loan_funded\<close> debit of the amount on the lender and a \<open>loan_received\<close> credit of the
  amount on the borrower, each with the balance it leaves. When no loan has the given id it
  returns and the store is unchanged. The theorem does not speak of a call that throws
  between the two credit steps.
\<close>

theorem fundLoan_any_status:
  "(\<not> list_ex (\<lambda>l. loan_id l = loanId) (loans s) \<longrightarrow> fundLoan loanId lenderId now s = Done s)
   \<and> (filter (\<lambda>l. loan_id l = loanId) (loans s) = loan # rest
        \<and> distinct (map user_id (users s))
        \<and> credits_of s lenderId = Some cl \<and> credits_of s (loan_borrowerId loan) = Some cb
        \<and> int4 (loan_amount loan) \<and> int4 (- loan_amount loan)
        \<and> int4 (cl - loan_amount loan) \<and> int4 (cb + loan_amount loan)
      \<longrightarrow> fundLoan loanId lenderId now s =
          Done (s\<lparr>loans := update_where (\<lambda>l. loan_id l = loanId) (set_funded lenderId now) (loans s),
                  users := update_where (\<lambda>u. user_id u = loan_borrowerId loan)
                             (add_credits (loan_amount loan) now)
                             (update_where (\<lambda>u. user_id u = lenderId)
                                (add_credits (- loan_amount loan) now) (users s)),
                  creditTransactions := creditTransactions s @
                    [\<lparr>tx_userId = lenderId, tx_amount = - loan_amount loan, tx_type = ''loan_funded'',
                      tx_referenceId = Some loanId, tx_description = ''Loan funded to another user'',
                      balanceAfter = cl - loan_amount loan\<rparr>,
                     \<lparr>tx_userId = loan_borrowerId loan, tx_amount = loan_amount loan,
                      tx_type = ''loan_received'', tx_referenceId = Some loanId,
                      tx_description = ''Loan received from another user'',
                      balanceAfter = (if loan_borrowerId loan = lenderId then cl
                                      else cb + loan_amount loan)\<rparr>]\<rparr>))"
proof (intro conjI impI)
  assume "\<not> list_ex (\<lambda>l. loan_id l = loanId) (loans s)"
  then have none: "\<forall>l \<in> set (loans s). \<not> loan_id l = loanId"
    by (simp add: list_ex_iff)
  then have "filter (\<lambda>l. loan_id l = loanId) (loans s) = []"
    by (simp add: filter_empty_conv)
  with update_where_none [OF none] show "fundLoan loanId lenderId now s = Done s"
    by (simp add: fundLoan_def returning_def Let_def)
next
  let ?a = "loan_amount loan"
  let ?b = "loan_borrowerId loan"
  assume h: "filter (\<lambda>l. loan_id l = loanId) (loans s) = loan # rest
        \<and> distinct (map user_id (users s))
        \<and> credits_of s lenderId = Some cl \<and> credits_of s ?b = Some cb
        \<and> int4 ?a \<and> int4 (- ?a) \<and> int4 (cl - ?a) \<and> int4 (cb + ?a)"
  let ?s1 = "s\<lparr>loans := update_where (\<lambda>l. loan_id l = loanId) (set_funded lenderId now) (loans s)\<rparr>"
  let ?s2 = "?s1\<lparr>users := update_where (\<lambda>u. user_id u = lenderId) (add_credits (- ?a) now) (users ?s1),
                 creditTransactions := creditTransactions ?s1 @
                   [\<lparr>tx_userId = lenderId, tx_amount = - ?a, tx_type = ''loan_funded'',
                     tx_referenceId = Some loanId, tx_description = ''Loan funded to another user'',
                     balanceAfter = cl + - ?a\<rparr>]\<rparr>"
  let ?cb = "if ?b = lenderId then cl - ?a else cb"
  from h have debit: "updateUserCredits lenderId (- ?a) ''loan_funded'' ''Loan funded to another user''
                        (Some loanId) now ?s1 = Done ?s2"
    by (intro updateUserCredits_ok) simp_all
  from h have cb: "credits_of ?s2 ?b = Some ?cb"
    by (subst credits_of_credited) auto
  from h have "int4 (?cb + ?a)"
    by (auto intro: int4_between)
  with h cb have credit: "updateUserCredits ?b ?a ''loan_received'' ''Loan received from another user''
                        (Some loanId) now ?s2 =
      Done (?s2\<lparr>users := update_where (\<lambda>u. user_id u = ?b) (add_credits ?a now) (users ?s2),
                 creditTransactions := creditTransactions ?s2 @
                   [\<lparr>tx_userId = ?b, tx_amount = ?a, tx_type = ''loan_received'',
                     tx_referenceId = Some loanId, tx_description = ''Loan received from another user'',
                     balanceAfter = ?cb + ?a\<rparr>]\<rparr>)"
    by (intro updateUserCredits_ok) (simp_all add: distinct_credited)
  from h have "user_exists s lenderId"
    by (auto intro: user_exists_credits_of)
  with h debit credit
  show "fundLoan loanId lenderId now s =
          Done (s\<lparr>loans := update_where (\<lambda>l. loan_id l = loanId) (set_funded lenderId now) (loans s),
                  users := update_where (\<lambda>u. user_id u = ?b) (add_credits ?a now)
                             (update_where (\<lambda>u. user_id u = lenderId) (add_credits (- ?a) now) (users s)),
                  creditTransactions := creditTransactions s @
                    [\<lparr>tx_userId = lenderId, tx_amount = - ?a, tx_type = ''loan_funded'',
                      tx_referenceId = Some loanId, tx_description = ''Loan funded to another user'',
                      balanceAfter = cl - ?a\<rparr>,
                     \<lparr>tx_userId = ?b, tx_amount = ?a,
                      tx_type = ''loan_received'', tx_referenceId = Some loanId,
                      tx_description = ''Loan received from another user'',
                      balanceAfter = (if ?b = lenderId then cl else cb + ?a)\<rparr>]\<rparr>)"
    by (simp add: fundLoan_def returning_def Let_def set_funded_def)
qed


theorem fundLoan_any_status_witness:
  "fundLoan ''l1'' ''bob'' 20 bank = Done funded
   \<and> fundLoan ''l2'' ''bob'' 20 bank = Done bank"
proof -
  let ?loan = "\<lparr>loan_id = ''l1'', loan_borrowerId = ''ann'', loan_lenderId = None, loan_amount = 50,
                totalRepayment = 55, loan_status = LoanPending, fundedAt = None, repaidAt = None\<rparr>"
  have "filter (\<lambda>l. loan_id l = ''l1'') (loans bank) = ?loan # []
        \<and> distinct (map user_id (users bank))
        \<and> credits_of bank ''bob'' = Some 200 \<and> credits_of bank (loan_borrowerId ?loan) = Some 200
        \<and> int4 (loan_amount ?loan) \<and> int4 (- loan_amount ?loan)
        \<and> int4 (200 - loan_amount ?loan) \<and> int4 (200 + loan_amount ?loan)"
    by (simp add: bank_def example_defs credits_of_def int4_def)
  with fundLoan_any_status [of "''l1''" bank "''bob''" 20 ?loan "[]" 200 200]
  have "fundLoan ''l1'' ''bob'' 20 bank = Done funded"
    unfolding funded_eq by (simp add: bank_def example_defs storage_defs)
  moreover have "\<not> list_ex (\<lambda>l. loan_id l = ''l2'') (loans bank)"
    by (simp add: bank_def)
  with fundLoan_any_status [of "''l2''" bank "''bob''" 20]
  have "fundLoan ''l2'' ''bob'' 20 bank = Done bank" by blast
  ultimately show ?thesis by simp
qed

text \<open>
  C5, as stated: \<open>repayLoan\<close> succeeds only on a funded loan, and a loan that is not funded
  causes no state change and no credit movement. The code does not read the loan's status.
  In the store \<open>repaid\<close> the loan is already repaid; repaying it again returns, debits the
  borrower another 55 and credits the lender another 55, with two more audit rows.
\<close>

theorem repayLoan_repaid_loan_counterexample:
  "map loan_status (loans repaid) = [Repaid]
   \<and> returned (repayLoan ''l1'' 23 repaid)
   \<and> map credits (users repaid) = [195, 205, 200]
   \<and> map credits (users (store (repayLoan ''l1'' 23 repaid))) = [140, 260, 200]
   \<and> map tx_amount (creditTransactions repaid) = [200, 200, 200, - 50, 50, - 55, 55]
   \<and> map tx_amount (creditTransactions (store (repayLoan ''l1'' 23 repaid)))
       = [200, 200, 200, - 50, 50, - 55, 55, - 55, 55]"
  unfolding repaid_eq
  by (simp add: storage_defs example_defs Let_def)

text \<open>
  C5, amended: \<open>repayLoan\<close> acts on a loan of any status. When a loan with the given id
  exists it sets the loan's status to repaid and records the repayment time. If the loan has
  a lender (a lender id that is not the empty string), and borrower and lender exist and the amounts stay within the integer range, it
  returns having moved the total repayment from the borrower to the lender as exactly two
  audit rows: a \<open>loan_repaid\<close> debit on the borrower and a \<open>loan_repaid_received\<close> credit
  on the lender. If the loan has no lender (it was never funded) it returns having moved no
  credits, the loan being marked repaid all the same. When no loan has the given id it
  returns and the store is unchanged. The theorem does not speak of a call that throws
  between the two credit steps.
\<close>

theorem repayLoan_any_status:
  "(\<not> list_ex (\<lambda>l. loan_id l = loanId) (loans s) \<longrightarrow> repayLoan loanId now s = Done s)
   \<and> (filter (\<lambda>l. loan_id l = loanId) (loans s) = loan # rest
        \<and> (loan_lenderId loan = None \<or> loan_lenderId loan = Some [])
      \<longrightarrow> repayLoan loanId now s =
          Done (s\<lparr>loans := update_where (\<lambda>l. loan_id l = loanId) (set_repaid now) (loans s)\<rparr>))
   \<and> (filter (\<lambda>l. loan_id l = loanId) (loans s) = loan # rest
        \<and> loan_lenderId loan = Some lender \<and> lender \<noteq> []
        \<and> distinct (map user_id (users s))
        \<and> credits_of s (loan_borrowerId loan) = Some cb \<and> credits_of s lender = Some cl
        \<and> int4 (totalRepayment loan) \<and> int4 (- totalRepayment loan)
        \<and> int4 (cb - totalRepayment loan) \<and> int4 (cl + totalRepayment loan)
      \<longrightarrow> repayLoan loanId now s =
          Done (s\<lparr>loans := update_where (\<lambda>l. loan_id l = loanId) (set_repaid now) (loans s),
                  users := update_where (\<lambda>u. user_id u = lender)
                             (add_credits (totalRepayment loan) now)
                             (update_where (\<lambda>u. user_id u = loan_borrowerId loan)
                                (add_credits (- totalRepayment loan) now) (users s)),
                  creditTransactions := creditTransactions s @
                    [\<lparr>tx_userId = loan_borrowerId loan, tx_amount = - totalRepayment loan,
                      tx_type = ''loan_repaid'', tx_referenceId = Some loanId,
                      tx_description = ''Loan repayment'',
                      balanceAfter = cb - totalRepayment loan\<rparr>,
                     \<lparr>tx_userId = lender, tx_amount = totalRepayment loan,
                      tx_type = ''loan_repaid_received'', tx_referenceId = Some loanId,
                      tx_description = ''Loan repayment received'',
                      balanceAfter = (if lender = loan_borrowerId loan then cb
                                      else cl + totalRepayment loan)\<rparr>]\<rparr>))"
proof (intro conjI impI)
  assume "\<not> list_ex (\<lambda>l. loan_id l = loanId) (loans s)"
  then have none: "\<forall>l \<in> set (loans s). \<not> loan_id l = loanId"
    by (simp add: list_ex_iff)
  then have "filter (\<lambda>l. loan_id l = loanId) (loans s) = []"
    by (simp add: filter_empty_conv)
  with update_where_none [OF none] show "repayLoan loanId now s = Done s"
    by (simp add: repayLoan_def returning_def Let_def)
next
  assume "filter (\<lambda>l. loan_id l = loanId) (loans s) = loan # rest
        \<and> (loan_lenderId loan = None \<or> loan_lenderId loan = Some [])"
  then show "repayLoan loanId now s =
          Done (s\<lparr>loans := update_where (\<lambda>l. loan_id l = loanId) (set_repaid now) (loans s)\<rparr>)"
    by (auto simp: repayLoan_def returning_def Let_def set_repaid_def)
next
  let ?a = "totalRepayment loan"
  let ?b = "loan_borrowerId loan"
  assume h: "filter (\<lambda>l. loan_id l = loanId) (loans s) = loan # rest
        \<and> loan_lenderId loan = Some lender \<and> lender \<noteq> []
        \<and> distinct (map user_id (users s))
        \<and> credits_of s ?b = Some cb \<and> credits_of s lender = Some cl
        \<and> int4 ?a \<and> int4 (- ?a) \<and> int4 (cb - ?a) \<and> int4 (cl + ?a)"
  let ?s1 = "s\<lparr>loans := update_where (\<lambda>l. loan_id l = loanId) (set_repaid now) (loans s)\<rparr>"
  let ?s2 = "?s1\<lparr>users := update_where (\<lambda>u. user_id u = ?b) (add_credits (- ?a) now) (users ?s1),
                 creditTransactions := creditTransactions ?s1 @
                   [\<lparr>tx_userId = ?b, tx_amount = - ?a, tx_type = ''loan_repaid'',
                     tx_referenceId = Some loanId, tx_description = ''Loan repayment'',
                     balanceAfter = cb + - ?a\<rparr>]\<rparr>"
  let ?cl = "if lender = ?b then cb - ?a else cl"
  from h have debit: "updateUserCredits ?b (- ?a) ''loan_repaid'' ''Loan repayment''
                        (Some loanId) now ?s1 = Done ?s2"
    by (intro updateUserCredits_ok) simp_all
  from h have cl: "credits_of ?s2 lender = Some ?cl"
    by (subst credits_of_credited) auto
  from h have "int4 (?cl + ?a)"
    by (auto intro: int4_between)
  with h cl have credit: "updateUserCredits lender ?a ''loan_repaid_received'' ''Loan repayment received''
                        (Some loanId) now ?s2 =
      Done (?s2\<lparr>users := update_where (\<lambda>u. user_id u = lender) (add_credits ?a now) (users ?s2),
                 creditTransactions := creditTransactions ?s2 @
                   [\<lparr>tx_userId = lender, tx_amount = ?a, tx_type = ''loan_repaid_received'',
                     tx_referenceId = Some loanId, tx_description = ''Loan repayment received'',
                     balanceAfter = ?cl + ?a\<rparr>]\<rparr>)"
    by (intro updateUserCredits_ok) (simp_all add: distinct_credited)
  from h debit credit
  show "repayLoan loanId now s =
          Done (s\<lparr>loans := update_where (\<lambda>l. loan_id l = loanId) (set_repaid now) (loans s),
                  users := update_where (\<lambda>u. user_id u = lender) (add_credits ?a now)
                             (update_where (\<lambda>u. user_id u = ?b) (add_credits (- ?a) now) (users s)),
                  creditTransactions := creditTransactions s @
                    [\<lparr>tx_userId = ?b, tx_amount = - ?a,
                      tx_type = ''loan_repaid'', tx_referenceId = Some loanId,
                      tx_description = ''Loan repayment'',
                      balanceAfter = cb - ?a\<rparr>,
                     \<lparr>tx_userId = lender, tx_amount = ?a,
                      tx_type = ''loan_repaid_received'', tx_referenceId = Some loanId,
                      tx_description = ''Loan repayment received'',
                      balanceAfter = (if lender = ?b then cb else cl + ?a)\<rparr>]\<rparr>)"
    by (simp add: repayLoan_def returning_def Let_def set_repaid_def)
qed


theorem repayLoan_any_status_witness:
  "repayLoan ''l1'' 22 funded = Done repaid
   \<and> map loan_status (loans (store (repayLoan ''l1'' 19 bank))) = [Repaid]
   \<and> creditTransactions (store (repayLoan ''l1'' 19 bank)) = creditTransactions bank"
proof -
  let ?loan = "\<lparr>loan_id = ''l1'', loan_borrowerId = ''ann'', loan_lenderId = Some ''bob'',
                loan_amount = 50, totalRepayment = 55, loan_status = Funded, fundedAt = Some 20,
                repaidAt = None\<rparr>"
  have "filter (\<lambda>l. loan_id l = ''l1'') (loans funded) = ?loan # []
        \<and> loan_lenderId ?loan = Some ''bob'' \<and> ''bob'' \<noteq> []
        \<and> distinct (map user_id (users funded))
        \<and> credits_of funded (loan_borrowerId ?loan) = Some 250 \<and> credits_of funded ''bob'' = Some 150
        \<and> int4 (totalRepayment ?loan) \<and> int4 (- totalRepayment ?loan)
        \<and> int4 (250 - totalRepayment ?loan) \<and> int4 (150 + totalRepayment ?loan)"
    by (simp add: funded_eq example_defs credits_of_def int4_def)
  with repayLoan_any_status [of "''l1''" funded 22 ?loan "[]" "''bob''" 250 150]
  have "repayLoan ''l1'' 22 funded = Done repaid"
    unfolding repaid_eq by (simp add: funded_eq example_defs storage_defs)
  moreover
  let ?pending = "\<lparr>loan_id = ''l1'', loan_borrowerId = ''ann'', loan_lenderId = None, loan_amount = 50,
                totalRepayment = 55, loan_status = LoanPending, fundedAt = None, repaidAt = None\<rparr>"
  have "filter (\<lambda>l. loan_id l = ''l1'') (loans bank) = ?pending # []
        \<and> (loan_lenderId ?pending = None \<or> loan_lenderId ?pending = Some [])"
    by (simp add: bank_def)
  with repayLoan_any_status [of "''l1''" bank 19 ?pending "[]"]
  have "repayLoan ''l1'' 19 bank =
          Done (bank\<lparr>loans := update_where (\<lambda>l. loan_id l = ''l1'') (set_repaid 19) (loans bank)\<rparr>)"
    by blast
  then have "map loan_status (loans (store (repayLoan ''l1'' 19 bank))) = [Repaid]
      \<and> creditTransactions (store (repayLoan ''l1'' 19 bank)) = creditTransactions bank"
    by (simp add: bank_def update_where_def set_repaid_def)
  ultimately show ?thesis by simp
qed

text \<open>
  C6, as stated: \<open>reviewSubmission\<close> fails, with no state change, when the submission does
  not exist or is not pending. The code does not read the submission's status. In the store
  \<open>approved\<close> the submission is already approved; approving it again returns and credits
  the reward of 30 a second time (230 to 260, one more audit row), and rejecting it returns
  and overwrites the status. For an id that no submission has, a rejection returns rather
  than fails.
\<close>

theorem reviewSubmission_approved_twice_counterexample:
  "map sub_status (challengeSubmissions approved) = [SubApproved]
   \<and> returned (reviewSubmission ''sb1'' Approved ''zed'' 31 approved)
   \<and> map credits (users approved) = [230, 0]
   \<and> map credits (users (store (reviewSubmission ''sb1'' Approved ''zed'' 31 approved))) = [260, 0]
   \<and> map tx_amount (creditTransactions approved) = [200, 30]
   \<and> map tx_amount (creditTransactions (store (reviewSubmission ''sb1'' Approved ''zed'' 31 approved)))
       = [200, 30, 30]
   \<and> returned (reviewSubmission ''sb1'' Rejected ''zed'' 31 approved)
   \<and> map sub_status (challengeSubmissions (store (reviewSubmission ''sb1'' Rejected ''zed'' 31 approved)))
       = [SubRejected]
   \<and> returned (reviewSubmission ''sb9'' Rejected ''zed'' 31 approved)"
  unfolding approved_eq
  by (simp add: storage_defs example_defs Let_def)

text \<open>
  C6, amended: \<open>reviewSubmission\<close> acts on a submission of any status. When the submission
  exists and the reviewer exists, it sets status, reviewer and review time; a rejection
  changes nothing else and moves no credits; an approval, when the challenge and the player
  exist and the balance stays within the integer range, also credits the player the
  challenge's reward with exactly one \<open>challenge_reward\<close> audit row, once per call. When no
  submission has the given id, a rejection returns and an approval throws, and the store is
  unchanged. Whenever the call throws the store is unchanged, so the status and the credit
  are stored together or not at all.
\<close>

theorem reviewSubmission_any_status:
  "(\<not> list_ex (\<lambda>r. submission_id r = submissionId) (challengeSubmissions s)
      \<longrightarrow> reviewSubmission submissionId Rejected reviewerId now s = Done s
          \<and> reviewSubmission submissionId Approved reviewerId now s = Threw TypeError s)
   \<and> (filter (\<lambda>r. submission_id r = submissionId) (challengeSubmissions s) = sub # rest
        \<and> user_exists s reviewerId
      \<longrightarrow> reviewSubmission submissionId Rejected reviewerId now s =
          Done (s\<lparr>challengeSubmissions := update_where (\<lambda>r. submission_id r = submissionId)
                     (set_review Rejected reviewerId now) (challengeSubmissions s)\<rparr>))
   \<and> (filter (\<lambda>r. submission_id r = submissionId) (challengeSubmissions s) = sub # rest
        \<and> user_exists s reviewerId
        \<and> filter (\<lambda>c. challenge_id c = sub_challengeId sub) (challenges s) = ch # chs
        \<and> distinct (map user_id (users s)) \<and> credits_of s (sub_userId sub) = Some c
        \<and> int4 (reward ch) \<and> int4 (c + reward ch)
      \<longrightarrow> reviewSubmission submissionId Approved reviewerId now s =
          Done (s\<lparr>challengeSubmissions := update_where (\<lambda>r. submission_id r = submissionId)
                     (set_review Approved reviewerId now) (challengeSubmissions s),
                  users := update_where (\<lambda>u. user_id u = sub_userId sub)
                             (add_credits (reward ch) now) (users s),
                  creditTransactions := creditTransactions s @
                    [\<lparr>tx_userId = sub_userId sub, tx_amount = reward ch,
                      tx_type = ''challenge_reward'', tx_referenceId = Some (challenge_id ch),
                      tx_description = ''Challenge completed: '' @ challenge_title ch,
                      balanceAfter = c + reward ch\<rparr>]\<rparr>))
   \<and> (reviewSubmission submissionId status reviewerId now s = Threw e s' \<longrightarrow> s' = s)"
proof (intro conjI impI)
  assume "\<not> list_ex (\<lambda>r. submission_id r = submissionId) (challengeSubmissions s)"
  then have none: "\<forall>r \<in> set (challengeSubmissions s). \<not> submission_id r = submissionId"
    by (simp add: list_ex_iff)
  then have f: "filter (\<lambda>r. submission_id r = submissionId) (challengeSubmissions s) = []"
    by (simp add: filter_empty_conv)
  from f update_where_none [OF none]
  show "reviewSubmission submissionId Rejected reviewerId now s = Done s"
    by (simp add: reviewSubmission_def returning_def Let_def)
  from f update_where_none [OF none]
  show "reviewSubmission submissionId Approved reviewerId now s = Threw TypeError s"
    by (simp add: reviewSubmission_def returning_def Let_def rollback_def)
next
  assume "filter (\<lambda>r. submission_id r = submissionId) (challengeSubmissions s) = sub # rest
        \<and> user_exists s reviewerId"
  then show "reviewSubmission submissionId Rejected reviewerId now s =
          Done (s\<lparr>challengeSubmissions := update_where (\<lambda>r. submission_id r = submissionId)
                     (set_review Rejected reviewerId now) (challengeSubmissions s)\<rparr>)"
    by (simp add: reviewSubmission_def returning_def Let_def)
next
  assume h: "filter (\<lambda>r. submission_id r = submissionId) (challengeSubmissions s) = sub # rest
        \<and> user_exists s reviewerId
        \<and> filter (\<lambda>c. challenge_id c = sub_challengeId sub) (challenges s) = ch # chs
        \<and> distinct (map user_id (users s)) \<and> credits_of s (sub_userId sub) = Some c
        \<and> int4 (reward ch) \<and> int4 (c + reward ch)"
  let ?s1 = "s\<lparr>challengeSubmissions := update_where (\<lambda>r. submission_id r = submissionId)
                     (set_review Approved reviewerId now) (challengeSubmissions s)\<rparr>"
  from h have "updateUserCredits (sub_userId sub) (reward ch) ''challenge_reward''
                 (''Challenge completed: '' @ challenge_title ch) (Some (challenge_id ch)) now ?s1 =
      Done (?s1\<lparr>users := update_where (\<lambda>u. user_id u = sub_userId sub)
                            (add_credits (reward ch) now) (users ?s1),
                 creditTransactions := creditTransactions ?s1 @
                   [\<lparr>tx_userId = sub_userId sub, tx_amount = reward ch, tx_type = ''challenge_reward'',
                     tx_referenceId = Some (challenge_id ch),
                     tx_description = ''Challenge completed: '' @ challenge_title ch,
                     balanceAfter = c + reward ch\<rparr>]\<rparr>)"
    by (intro updateUserCredits_ok) simp_all
  with h show "reviewSubmission submissionId Approved reviewerId now s =
          Done (s\<lparr>challengeSubmissions := update_where (\<lambda>r. submission_id r = submissionId)
                     (set_review Approved reviewerId now) (challengeSubmissions s),
                  users := update_where (\<lambda>u. user_id u = sub_userId sub)
                             (add_credits (reward ch) now) (users s),
                  creditTransactions := creditTransactions s @
                    [\<lparr>tx_userId = sub_userId sub, tx_amount = reward ch,
                      tx_type = ''challenge_reward'', tx_referenceId = Some (challenge_id ch),
                      tx_description = ''Challenge completed: '' @ challenge_title ch,
                      balanceAfter = c + reward ch\<rparr>]\<rparr>)"
    by (simp add: reviewSubmission_def returning_def Let_def set_review_def)
next
  assume t: "reviewSubmission submissionId status reviewerId now s = Threw e s'"
  let ?s1 = "s\<lparr>challengeSubmissions := update_where (\<lambda>r. submission_id r = submissionId)
                     (set_review status reviewerId now) (challengeSubmissions s)\<rparr>"
  let ?rows = "filter (\<lambda>r. submission_id r = submissionId) (challengeSubmissions s)"
  show "s' = s"
  proof (cases ?rows)
    case Nil
    then have "\<exists>x. reviewSubmission submissionId status reviewerId now s = Done x
        \<or> reviewSubmission submissionId status reviewerId now s = Threw TypeError s"
      by (cases status) (simp_all add: reviewSubmission_def returning_def Let_def)
    with t show ?thesis by auto
  next
    case (Cons sub rest)
    show ?thesis
    proof (cases "user_exists s reviewerId")
      case False
      with Cons have "reviewSubmission submissionId status reviewerId now s
          = Threw ForeignKeyViolation s"
        by (simp add: reviewSubmission_def returning_def Let_def)
      with t show ?thesis by simp
    next
      case True
      show ?thesis
      proof (cases status)
        case Rejected
        with True Cons t show ?thesis
          by (simp add: reviewSubmission_def returning_def Let_def)
      next
        case Approved
        show ?thesis
        proof (cases "filter (\<lambda>c. challenge_id c = sub_challengeId sub) (challenges s)")
          case Nil
          with True Approved Cons t show ?thesis
            by (simp add: reviewSubmission_def returning_def Let_def set_review_def)
        next
          case ch: (Cons ch chs)
          with True Approved Cons t have "transaction s
              (updateUserCredits (sub_userId sub) (reward ch) ''challenge_reward''
                 (''Challenge completed: '' @ challenge_title ch) (Some (challenge_id ch)) now ?s1)
              = Threw e s'"
            by (simp add: reviewSubmission_def returning_def Let_def set_review_def)
          from transaction_updateUserCredits_Threw [OF this] show ?thesis by simp
        qed
      qed
    qed
  qed
qed

theorem reviewSubmission_any_status_witness:
  "reviewSubmission ''sb1'' Approved ''zed'' 30 school = Done approved
   \<and> map sub_status (challengeSubmissions (store (reviewSubmission ''sb1'' Rejected ''zed'' 30 school)))
       = [SubRejected]
   \<and> creditTransactions (store (reviewSubmission ''sb1'' Rejected ''zed'' 30 school))
       = creditTransactions school"
proof -
  let ?sub = "\<lparr>submission_id = ''sb1'', sub_challengeId = ''ch1'', sub_userId = ''ann'',
                sub_status = SubPending, reviewedBy = None, reviewedAt = None\<rparr>"
  let ?ch = "\<lparr>challenge_id = ''ch1'', challenge_title = ''Run'', reward = 30\<rparr>"
  have e: "filter (\<lambda>r. submission_id r = ''sb1'') (challengeSubmissions school) = ?sub # []
        \<and> user_exists school ''zed''"
    by (simp add: school_def example_defs user_exists_def)
  have "filter (\<lambda>r. submission_id r = ''sb1'') (challengeSubmissions school) = ?sub # []
        \<and> user_exists school ''zed''
        \<and> filter (\<lambda>c. challenge_id c = sub_challengeId ?sub) (challenges school) = ?ch # []
        \<and> distinct (map user_id (users school)) \<and> credits_of school (sub_userId ?sub) = Some 200
        \<and> int4 (reward ?ch) \<and> int4 (200 + reward ?ch)"
    using e by (simp add: school_def example_defs credits_of_def int4_def)
  with reviewSubmission_any_status [of "''sb1''" school "''zed''" 30 ?sub "[]" ?ch "[]" 200]
  have "reviewSubmission ''sb1'' Approved ''zed'' 30 school = Done approved"
    unfolding approved_eq by (simp add: school_def example_defs storage_defs)
  moreover from e reviewSubmission_any_status [of "''sb1''" school "''zed''" 30 ?sub "[]"]
  have "reviewSubmission ''sb1'' Rejected ''zed'' 30 school =
          Done (school\<lparr>challengeSubmissions := update_where (\<lambda>r. submission_id r = ''sb1'')
                     (set_review Rejected ''zed'' 30) (challengeSubmissions school)\<rparr>)"
    by blast
  then have "map sub_status (challengeSubmissions (store (reviewSubmission ''sb1'' Rejected ''zed'' 30 school)))
       = [SubRejected]
   \<and> creditTransactions (store (reviewSubmission ''sb1'' Rejected ''zed'' 30 school))
       = creditTransactions school"
    by (simp add: school_def update_where_def set_review_def)
  ultimately show ?thesis by simp
qed

text \<open>
  C7, as stated: \<open>placeBet\<close> requires a positive amount and an open event, and otherwise
  creates no bet and debits nothing. The code checks neither. On the resolved derby of the
  store \<open>finished\<close> a bet of 50 is accepted: the call returns, the bet exists (store
  \<open>settled\<close>) and the player is debited 50. On the open derby of \<open>arena\<close> a bet of -5 is
  accepted: the call returns, the bet exists and the player's balance rises from 200 to 205.
\<close>

theorem placeBet_counterexample:
  "map event_status (bettingEvents finished) = [EvResolved]
   \<and> returned (placeBet ''b2''
        \<lparr>ins_eventId = ''derby'', ins_optionId = ''blue'', ins_userId = ''bob'', ins_amount = 50\<rparr>
        10 finished)
   \<and> map bet_id (bets finished) = [''b1'']
   \<and> map bet_id (bets settled) = [''b1'', ''b2'']
   \<and> map credits (users finished) = [214, 200]
   \<and> map credits (users settled) = [214, 150]
   \<and> returned (placeBet ''b3''
        \<lparr>ins_eventId = ''derby'', ins_optionId = ''red'', ins_userId = ''bob'', ins_amount = - 5\<rparr>
        4 arena)
   \<and> map bet_amount (bets (store (placeBet ''b3''
        \<lparr>ins_eventId = ''derby'', ins_optionId = ''red'', ins_userId = ''bob'', ins_amount = - 5\<rparr>
        4 arena))) = [100, - 5]
   \<and> map credits (users arena) = [100, 200]
   \<and> map credits (users (store (placeBet ''b3''
        \<lparr>ins_eventId = ''derby'', ins_optionId = ''red'', ins_userId = ''bob'', ins_amount = - 5\<rparr>
        4 arena))) = [100, 205]"
proof -
  have "returned (placeBet ''b2''
        \<lparr>ins_eventId = ''derby'', ins_optionId = ''blue'', ins_userId = ''bob'', ins_amount = 50\<rparr>
        10 finished)"
    unfolding finished_eq by (simp add: storage_defs example_defs Let_def)
  moreover have "map event_status (bettingEvents finished) = [EvResolved]
      \<and> map bet_id (bets finished) = [''b1''] \<and> map credits (users finished) = [214, 200]"
    by (simp add: finished_eq example_defs)
  moreover have "map bet_id (bets settled) = [''b1'', ''b2''] \<and> map credits (users settled) = [214, 150]"
    by (simp add: settled_eq example_defs)
  ultimately show ?thesis
    by (simp add: storage_defs example_defs Let_def)
qed

text \<open>
  C7, amended: \<open>placeBet\<close> checks neither the sign of the amount nor the event's status.
  Whenever the event, the option and the player exist, the bet's id is new and the amounts
  stay within the integer range, it returns, having created the bet with status active and
  debited exactly the amount from the player's balance with one \<open>bet_placed\<close> audit row of
  minus the amount. Whenever it throws, the store is unchanged: no bet is created and nothing
  is debited, so a bet never exists without its stake having been debited.
\<close>

theorem placeBet_unguarded:
  "(int4 (ins_amount bet) \<and> int4 (- ins_amount bet)
        \<and> \<not> list_ex (\<lambda>b. bet_id b = newId) (bets s)
        \<and> list_ex (\<lambda>e. event_id e = ins_eventId bet) (bettingEvents s)
        \<and> list_ex (\<lambda>opt. option_id opt = ins_optionId bet) (bettingOptions s)
        \<and> distinct (map user_id (users s)) \<and> credits_of s (ins_userId bet) = Some c
        \<and> int4 (c - ins_amount bet)
      \<longrightarrow> placeBet newId bet now s =
          Done (s\<lparr>bets := bets s @
                    [\<lparr>bet_id = newId, bet_eventId = ins_eventId bet, bet_optionId = ins_optionId bet,
                      bet_userId = ins_userId bet, bet_amount = ins_amount bet,
                      bet_status = Active, payout = None\<rparr>],
                  users := update_where (\<lambda>u. user_id u = ins_userId bet)
                             (add_credits (- ins_amount bet) now) (users s),
                  creditTransactions := creditTransactions s @
                    [\<lparr>tx_userId = ins_userId bet, tx_amount = - ins_amount bet,
                      tx_type = ''bet_placed'', tx_referenceId = Some (ins_eventId bet),
                      tx_description = ''Bet placed'',
                      balanceAfter = c - ins_amount bet\<rparr>]\<rparr>))
   \<and> (placeBet newId bet now s = Threw e s' \<longrightarrow> s' = s)"
proof (intro conjI impI)
  assume h: "int4 (ins_amount bet) \<and> int4 (- ins_amount bet)
        \<and> \<not> list_ex (\<lambda>b. bet_id b = newId) (bets s)
        \<and> list_ex (\<lambda>e. event_id e = ins_eventId bet) (bettingEvents s)
        \<and> list_ex (\<lambda>opt. option_id opt = ins_optionId bet) (bettingOptions s)
        \<and> distinct (map user_id (users s)) \<and> credits_of s (ins_userId bet) = Some c
        \<and> int4 (c - ins_amount bet)"
  let ?row = "\<lparr>bet_id = newId, bet_eventId = ins_eventId bet, bet_optionId = ins_optionId bet,
                      bet_userId = ins_userId bet, bet_amount = ins_amount bet,
                      bet_status = Active, payout = None\<rparr>"
  let ?s1 = "s\<lparr>bets := bets s @ [?row]\<rparr>"
  from h have "updateUserCredits (ins_userId bet) (- ins_amount bet) ''bet_placed'' ''Bet placed''
                 (Some (ins_eventId bet)) now ?s1 =
      Done (?s1\<lparr>users := update_where (\<lambda>u. user_id u = ins_userId bet)
                            (add_credits (- ins_amount bet) now) (users ?s1),
                 creditTransactions := creditTransactions ?s1 @
                   [\<lparr>tx_userId = ins_userId bet, tx_amount = - ins_amount bet, tx_type = ''bet_placed'',
                     tx_referenceId = Some (ins_eventId bet), tx_description = ''Bet placed'',
                     balanceAfter = c + - ins_amount bet\<rparr>]\<rparr>)"
    by (intro updateUserCredits_ok) simp_all
  moreover from h have "user_exists s (ins_userId bet)"
    by (auto intro: user_exists_credits_of)
  ultimately show "placeBet newId bet now s =
          Done (s\<lparr>bets := bets s @ [?row],
                  users := update_where (\<lambda>u. user_id u = ins_userId bet)
                             (add_credits (- ins_amount bet) now) (users s),
                  creditTransactions := creditTransactions s @
                    [\<lparr>tx_userId = ins_userId bet, tx_amount = - ins_amount bet,
                      tx_type = ''bet_placed'', tx_referenceId = Some (ins_eventId bet),
                      tx_description = ''Bet placed'',
                      balanceAfter = c - ins_amount bet\<rparr>]\<rparr>)"
    using h by (simp add: placeBet_def Let_def)
next
  assume t: "placeBet newId bet now s = Threw e s'"
  let ?s1 = "s\<lparr>bets := bets s @
                    [\<lparr>bet_id = newId, bet_eventId = ins_eventId bet, bet_optionId = ins_optionId bet,
                      bet_userId = ins_userId bet, bet_amount = ins_amount bet,
                      bet_status = Active, payout = None\<rparr>]\<rparr>"
  show "s' = s"
  proof (cases "int4 (ins_amount bet) \<and> \<not> list_ex (\<lambda>b. bet_id b = newId) (bets s)
        \<and> list_ex (\<lambda>e. event_id e = ins_eventId bet) (bettingEvents s)
        \<and> list_ex (\<lambda>opt. option_id opt = ins_optionId bet) (bettingOptions s)
        \<and> user_exists s (ins_userId bet)")
    case False
    then have "\<exists>x. placeBet newId bet now s = Threw x s"
      by (auto simp: placeBet_def Let_def)
    with t show ?thesis by auto
  next
    case True
    with t have "transaction s
        (updateUserCredits (ins_userId bet) (- ins_amount bet) ''bet_placed'' ''Bet placed''
           (Some (ins_eventId bet)) now ?s1) = Threw e s'"
      by (simp add: placeBet_def Let_def)
    from transaction_updateUserCredits_Threw [OF this] show ?thesis by simp
  qed
qed

theorem placeBet_unguarded_witness:
  "placeBet ''b2''
        \<lparr>ins_eventId = ''derby'', ins_optionId = ''blue'', ins_userId = ''bob'', ins_amount = 50\<rparr>
        10 finished = Done settled"
proof -
  let ?bet = "\<lparr>ins_eventId = ''derby'', ins_optionId = ''blue'', ins_userId = ''bob'', ins_amount = 50\<rparr>"
  have "int4 (ins_amount ?bet) \<and> int4 (- ins_amount ?bet)
        \<and> \<not> list_ex (\<lambda>b. bet_id b = ''b2'') (bets finished)
        \<and> list_ex (\<lambda>e. event_id e = ins_eventId ?bet) (bettingEvents finished)
        \<and> list_ex (\<lambda>opt. option_id opt = ins_optionId ?bet) (bettingOptions finished)
        \<and> distinct (map user_id (users finished)) \<and> credits_of finished (ins_userId ?bet) = Some 200
        \<and> int4 (200 - ins_amount ?bet)"
    by (simp add: finished_eq example_defs credits_of_def int4_def)
  with placeBet_unguarded [of ?bet "''b2''" finished 200 10]
  show ?thesis
    unfolding settled_eq by (simp add: finished_eq example_defs storage_defs)
qed

text \<open>
  C8, as stated: \<open>cancelBet\<close> succeeds only on an active bet, and on a bet that is not
  active it changes nothing and refunds nothing. The code does not read the bet's status. In
  the store \<open>cancelled\<close> the bet is already cancelled and refunded; cancelling it again
  returns and refunds the 100 a second time (200 to 300, one more audit row).
\<close>

theorem cancelBet_cancelled_bet_counterexample:
  "map bet_status (bets cancelled) = [Cancelled]
   \<and> returned (cancelBet ''b1'' ''ann'' 6 cancelled)
   \<and> map credits (users cancelled) = [200, 200]
   \<and> map credits (users (store (cancelBet ''b1'' ''ann'' 6 cancelled))) = [300, 200]
   \<and> map tx_amount (creditTransactions cancelled) = [200, 200, - 100, 100]
   \<and> map tx_amount (creditTransactions (store (cancelBet ''b1'' ''ann'' 6 cancelled)))
       = [200, 200, - 100, 100, 100]"
  unfolding cancelled_eq
  by (simp add: storage_defs example_defs Let_def)

text \<open>
  C8, amended: \<open>cancelBet\<close> acts on a bet of any status. When a bet with the given id
  belongs to the player, whatever its status, and the player exists and the balance stays
  within the integer range, it returns, having set the bet's status to cancelled and
  credited the full bet amount back with one \<open>bet_cancelled\<close> audit row. When no bet with
  that id belongs to the player, it returns and the store is unchanged. Whenever it throws,
  the store is unchanged, so the status change and the refund are stored together or not at
  all.
\<close>

theorem cancelBet_any_status:
  "(\<not> list_ex (\<lambda>b. bet_id b = betId \<and> bet_userId b = userId) (bets s)
      \<longrightarrow> cancelBet betId userId now s = Done s)
   \<and> (filter (\<lambda>b. bet_id b = betId \<and> bet_userId b = userId) (bets s) = bet # rest
        \<and> distinct (map user_id (users s)) \<and> credits_of s userId = Some c
        \<and> int4 (bet_amount bet) \<and> int4 (c + bet_amount bet)
      \<longrightarrow> cancelBet betId userId now s =
          Done (s\<lparr>bets := update_where (\<lambda>b. bet_id b = betId \<and> bet_userId b = userId)
                            (\<lambda>b. b\<lparr>bet_status := Cancelled\<rparr>) (bets s),
                  users := update_where (\<lambda>u. user_id u = userId)
                             (add_credits (bet_amount bet) now) (users s),
                  creditTransactions := creditTransactions s @
                    [\<lparr>tx_userId = userId, tx_amount = bet_amount bet, tx_type = ''bet_cancelled'',
                      tx_referenceId = Some (bet_eventId bet),
                      tx_description = ''Bet cancelled and refunded'',
                      balanceAfter = c + bet_amount bet\<rparr>]\<rparr>))
   \<and> (cancelBet betId userId now s = Threw e s' \<longrightarrow> s' = s)"
proof (intro conjI impI)
  assume "\<not> list_ex (\<lambda>b. bet_id b = betId \<and> bet_userId b = userId) (bets s)"
  then have none: "\<forall>b \<in> set (bets s). \<not> (bet_id b = betId \<and> bet_userId b = userId)"
    by (simp add: list_ex_iff)
  then have "filter (\<lambda>b. bet_id b = betId \<and> bet_userId b = userId) (bets s) = []"
    by (simp add: filter_empty_conv)
  with update_where_none [OF none] show "cancelBet betId userId now s = Done s"
    by (simp add: cancelBet_def returning_def Let_def)
next
  assume h: "filter (\<lambda>b. bet_id b = betId \<and> bet_userId b = userId) (bets s) = bet # rest
        \<and> distinct (map user_id (users s)) \<and> credits_of s userId = Some c
        \<and> int4 (bet_amount bet) \<and> int4 (c + bet_amount bet)"
  let ?s1 = "s\<lparr>bets := update_where (\<lambda>b. bet_id b = betId \<and> bet_userId b = userId)
                            (\<lambda>b. b\<lparr>bet_status := Cancelled\<rparr>) (bets s)\<rparr>"
  from h have "updateUserCredits userId (bet_amount bet) ''bet_cancelled'' ''Bet cancelled and refunded''
                 (Some (bet_eventId bet)) now ?s1 =
      Done (?s1\<lparr>users := update_where (\<lambda>u. user_id u = userId) (add_credits (bet_amount bet) now) (users ?s1),
                 creditTransactions := creditTransactions ?s1 @
                   [\<lparr>tx_userId = userId, tx_amount = bet_amount bet, tx_type = ''bet_cancelled'',
                     tx_referenceId = Some (bet_eventId bet),
                     tx_description = ''Bet cancelled and refunded'',
                     balanceAfter = c + bet_amount bet\<rparr>]\<rparr>)"
    by (intro updateUserCredits_ok) simp_all
  with h show "cancelBet betId userId now s =
          Done (s\<lparr>bets := update_where (\<lambda>b. bet_id b = betId \<and> bet_userId b = userId)
                            (\<lambda>b. b\<lparr>bet_status := Cancelled\<rparr>) (bets s),
                  users := update_where (\<lambda>u. user_id u = userId)
                             (add_credits (bet_amount bet) now) (users s),
                  creditTransactions := creditTransactions s @
                    [\<lparr>tx_userId = userId, tx_amount = bet_amount bet, tx_type = ''bet_cancelled'',
                      tx_referenceId = Some (bet_eventId bet),
                      tx_description = ''Bet cancelled and refunded'',
                      balanceAfter = c + bet_amount bet\<rparr>]\<rparr>)"
    by (simp add: cancelBet_def returning_def Let_def)
next
  assume t: "cancelBet betId userId now s = Threw e s'"
  show "s' = s"
  proof (cases "filter (\<lambda>b. bet_id b = betId \<and> bet_userId b = userId) (bets s)")
    case Nil
    with t show ?thesis
      by (simp add: cancelBet_def returning_def Let_def)
  next
    case (Cons bet rest)
    with t have "transaction s
        (updateUserCredits userId (bet_amount bet) ''bet_cancelled'' ''Bet cancelled and refunded''
           (Some (bet_eventId bet)) now
           (s\<lparr>bets := update_where (\<lambda>b. bet_id b = betId \<and> bet_userId b = userId)
                        (\<lambda>b. b\<lparr>bet_status := Cancelled\<rparr>) (bets s)\<rparr>)) = Threw e s'"
      by (simp add: cancelBet_def returning_def Let_def)
    from transaction_updateUserCredits_Threw [OF this] show ?thesis by simp
  qed
qed

theorem cancelBet_any_status_witness:
  "cancelBet ''b1'' ''ann'' 5 arena = Done cancelled
   \<and> cancelBet ''b1'' ''bob'' 5 arena = Done arena"
proof -
  let ?bet = "active_bet ''b1'' ''derby'' ''blue'' ''ann'' 100"
  have "filter (\<lambda>b. bet_id b = ''b1'' \<and> bet_userId b = ''ann'') (bets arena) = ?bet # []
        \<and> distinct (map user_id (users arena)) \<and> credits_of arena ''ann'' = Some 100
        \<and> int4 (bet_amount ?bet) \<and> int4 (100 + bet_amount ?bet)"
    by (simp add: example_defs credits_of_def int4_def)
  with cancelBet_any_status [of "''b1''" "''ann''" arena 5 ?bet "[]" 100]
  have "cancelBet ''b1'' ''ann'' 5 arena = Done cancelled"
    unfolding cancelled_eq by (simp add: example_defs storage_defs)
  moreover have "\<not> list_ex (\<lambda>b. bet_id b = ''b1'' \<and> bet_userId b = ''bob'') (bets arena)"
    by (simp add: example_defs)
  with cancelBet_any_status [of "''b1''" "''bob''" arena 5]
  have "cancelBet ''b1'' ''bob'' 5 arena = Done arena" by blast
  ultimately show ?thesis by simp
qed

text \<open>
  C9, as stated: the payout of a bet that is active on the winning option is the floor of
  the exact decimal product of its amount and the multiplier, for every amount and every
  multiplier with two decimal places. The code computes
  \<open>Math.floor(bet.amount * parseFloat(option.multiplier))\<close>, the floor of a product of binary
  floating-point numbers. In the store \<open>arena\<close> a bet of 100 is active on the option
  \<open>1.15\<close>: the product is 114.99999999999998..., so the bet is marked won with the payout
  114 and its player is credited 114, while the floor of the exact product is 115.
\<close>

theorem payout_100_at_1_15_counterexample:
  "map bet_id (map fst (winningBets ''derby'' ''blue'' arena)) = [''b1'']
   \<and> map bet_amount (map fst (winningBets ''derby'' ''blue'' arena)) = [100]
   \<and> map multiplier (map snd (winningBets ''derby'' ''blue'' arena)) = [115]
   \<and> returned (resolveBettingEvent ''derby'' ''blue'' ''admin'' 9 arena)
   \<and> map bet_id (bets (store (resolveBettingEvent ''derby'' ''blue'' ''admin'' 9 arena))) = [''b1'']
   \<and> map bet_status (bets (store (resolveBettingEvent ''derby'' ''blue'' ''admin'' 9 arena))) = [Won]
   \<and> map payout (bets (store (resolveBettingEvent ''derby'' ''blue'' ''admin'' 9 arena))) = [Some 114]
   \<and> map tx_amount (creditTransactions (store (resolveBettingEvent ''derby'' ''blue'' ''admin'' 9 arena)))
       = [200, 200, - 100, 114]
   \<and> spec_payout 100 115 = 115"
proof -
  have "payout_of 100 115 = 114"
    by (simp add: float_defs Let_def)
  then show ?thesis
    by (simp add: storage_defs example_defs Let_def spec_payout_def)
qed

text \<open>
  C9, amended: when \<open>resolveBettingEvent\<close> returns, every bet that was active on the winning option
  (joined with its option, in a store whose bet ids and option ids are primary keys) is
  recorded as won with the payout \<open>Math.floor(bet.amount * parseFloat(option.multiplier))\<close>,
  and the ledger has grown by exactly one \<open>bet_win\<close> row per such bet, for the bet's player
  and of that same amount. The product is one of binary floating-point numbers; it is the
  floor of the exact decimal product whenever the multiplier is a whole number and the
  product is below \<open>2\<^sup>5\<^sup>3\<close> in absolute value (300 at 2.00 pays 600).
\<close>

theorem payout_is_floor_of_double_product:
  "(resolveBettingEvent eventId winningOption adminId now s = Done s'
      \<and> distinct (map bet_id (bets s)) \<and> distinct (map option_id (bettingOptions s))
    \<longrightarrow> (\<exists>new. creditTransactions s' = creditTransactions s @ new
           \<and> list_all2 (\<lambda>t (b, opt). tx_userId t = bet_userId b \<and> tx_type t = ''bet_win''
                            \<and> tx_amount t = payout_of (bet_amount b) (multiplier opt))
                new (winningBets eventId winningOption s))
        \<and> (\<forall>(b, opt) \<in> set (winningBets eventId winningOption s).
              b\<lparr>bet_status := Won, payout := Some (payout_of (bet_amount b) (multiplier opt))\<rparr>
                \<in> set (bets s')))
   \<and> (\<bar>amount * k\<bar> < 2 ^ 53 \<longrightarrow> payout_of amount (100 * k) = spec_payout amount (100 * k))"
proof (intro conjI impI)
  assume h: "resolveBettingEvent eventId winningOption adminId now s = Done s'
      \<and> distinct (map bet_id (bets s)) \<and> distinct (map option_id (bettingOptions s))"
  let ?s1 = "s\<lparr>bettingEvents := update_where (\<lambda>e. event_id e = eventId)
                                    (resolve_event winningOption now) (bettingEvents s)\<rparr>"
  let ?ws = "winningBets eventId winningOption s"
  from h have "transaction s (and_then (payout_loop eventId now ?ws ?s1)
                 (\<lambda>s2. Done (s2\<lparr>bets := mark_lost eventId winningOption (bets s2)\<rparr>))) = Done s'"
    by (simp add: resolveBettingEvent_def Let_def winningBets_frame)
  from and_then_Done [OF transaction_Done [OF this]] obtain s2 where
    l: "payout_loop eventId now ?ws ?s1 = Done s2"
    and s': "s' = s2\<lparr>bets := mark_lost eventId winningOption (bets s2)\<rparr>" by auto
  from payout_loop_Done_ledger [OF l] s'
  show "\<exists>new. creditTransactions s' = creditTransactions s @ new
           \<and> list_all2 (\<lambda>t (b, opt). tx_userId t = bet_userId b \<and> tx_type t = ''bet_win''
                            \<and> tx_amount t = payout_of (bet_amount b) (multiplier opt)) new ?ws"
    by simp
  from h have d: "distinct (map (bet_id \<circ> fst) ?ws)"
    by (simp add: winningBets_distinct)
  show "\<forall>(b, opt) \<in> set ?ws.
           b\<lparr>bet_status := Won, payout := Some (payout_of (bet_amount b) (multiplier opt))\<rparr>
             \<in> set (bets s')"
  proof (clarify)
    fix b opt
    assume m: "(b, opt) \<in> set ?ws"
    let ?b' = "b\<lparr>bet_status := Won, payout := Some (payout_of (bet_amount b) (multiplier opt))\<rparr>"
    from winningBets_member [OF m] have "b \<in> set (bets ?s1)" by simp
    from payout_loop_Done_bets [OF l d m this refl] have "?b' \<in> set (bets s2)" .
    then show "?b' \<in> set (bets s')"
      unfolding s' by (auto simp: mark_lost_def in_update_where intro!: bexI [where x = ?b'])
  qed
next
  assume "\<bar>amount * k\<bar> < 2 ^ 53"
  then show "payout_of amount (100 * k) = spec_payout amount (100 * k)"
    by (simp add: payout_of_whole_multiplier spec_payout_def)
qed

theorem payout_is_floor_of_double_product_witness:
  "resolveBettingEvent ''derby'' ''blue'' ''admin'' 9 arena = Done finished
   \<and> distinct (map bet_id (bets arena)) \<and> distinct (map option_id (bettingOptions arena))
   \<and> map tx_amount (creditTransactions finished)
       = map tx_amount (creditTransactions arena) @ [payout_of 100 115]
   \<and> (active_bet ''b1'' ''derby'' ''blue'' ''ann'' 100)\<lparr>bet_status := Won, payout := Some (payout_of 100 115)\<rparr>
       \<in> set (bets finished)
   \<and> \<bar>300 * 2\<bar> < (2::int) ^ 53
   \<and> payout_of 300 (100 * 2) = spec_payout 300 (100 * 2)"
proof -
  let ?blue = "\<lparr>option_id = ''blue'', opt_eventId = ''derby'', multiplier = 115\<rparr>"
  let ?b1 = "active_bet ''b1'' ''derby'' ''blue'' ''ann'' 100"
  have r: "resolveBettingEvent ''derby'' ''blue'' ''admin'' 9 arena = Done finished"
    unfolding finished_eq by (simp add: storage_defs example_defs Let_def payout_values)
  have d: "distinct (map bet_id (bets arena))" "distinct (map option_id (bettingOptions arena))"
    by (simp_all add: example_defs)
  have w: "winningBets ''derby'' ''blue'' arena = [(?b1, ?blue)]"
    by (simp add: storage_defs example_defs)
  have k: "\<bar>300 * 2\<bar> < (2::int) ^ 53" by simp
  from payout_is_floor_of_double_product
         [of "''derby''" "''blue''" "''admin''" 9 arena finished 300 2] r d k
  have a: "\<exists>new. creditTransactions finished = creditTransactions arena @ new
           \<and> list_all2 (\<lambda>t (b, opt). tx_userId t = bet_userId b \<and> tx_type t = ''bet_win''
                            \<and> tx_amount t = payout_of (bet_amount b) (multiplier opt))
                new [(?b1, ?blue)]"
    and b: "\<forall>(b, opt) \<in> set [(?b1, ?blue)].
              b\<lparr>bet_status := Won, payout := Some (payout_of (bet_amount b) (multiplier opt))\<rparr>
                \<in> set (bets finished)"
    and c: "payout_of 300 (100 * 2) = spec_payout 300 (100 * 2)"
    unfolding w by blast+
  from a obtain new where n: "creditTransactions finished = creditTransactions arena @ new"
    and l: "list_all2 (\<lambda>t (b, opt). tx_userId t = bet_userId b \<and> tx_type t = ''bet_win''
                            \<and> tx_amount t = payout_of (bet_amount b) (multiplier opt))
                new [(?b1, ?blue)]" by blast
  from l obtain t where "new = [t]" and "tx_amount t = payout_of (bet_amount ?b1) (multiplier ?blue)"
    by (auto simp: list_all2_Cons2)
  with n have m: "map tx_amount (creditTransactions finished)
       = map tx_amount (creditTransactions arena) @ [payout_of 100 115]"
    by (simp add: active_bet_def)
  from b have "?b1\<lparr>bet_status := Won, payout := Some (payout_of 100 115)\<rparr> \<in> set (bets finished)"
    by (simp add: active_bet_def)
  with r d m k c show ?thesis by blast
qed

text \<open>
  C10. \<open>resolveBettingEvent\<close> changes only the designated event, the bets of that event
  that are active when it is called, and the balances of winners: every other event row and
  every bet of another event or with a status other than active is left as it is, the other
  tables are untouched, and every audit row created is a \<open>bet_win\<close> row for this event that
  credits the owner of a winning bet with that bet's payout; each player's balance moves by
  the sum of those rows and by nothing else. This holds whether the call returns or throws.
  The bet ids are the primary key of the table (\<open>distinct\<close>).
\<close>

theorem resolveBettingEvent_frame:
  assumes "distinct (map bet_id (bets s))"
    and "s' = store (resolveBettingEvent eventId winningOption adminId now s)"
  shows "other_tables_kept s s'
    \<and> list_all2 (\<lambda>e e'. event_id e \<noteq> eventId \<longrightarrow> e' = e) (bettingEvents s) (bettingEvents s')
    \<and> list_all2 (\<lambda>b b'. bet_eventId b \<noteq> eventId \<or> bet_status b \<noteq> Active \<longrightarrow> b' = b) (bets s) (bets s')
    \<and> map user_id (users s') = map user_id (users s)
    \<and> (\<exists>new. creditTransactions s' = creditTransactions s @ new
          \<and> (\<forall>t \<in> set new. tx_type t = ''bet_win'' \<and> tx_referenceId t = Some eventId \<and>
                (\<exists>(b, opt) \<in> set (winningBets eventId winningOption s). tx_userId t = bet_userId b
                    \<and> tx_amount t = payout_of (bet_amount b) (multiplier opt)))
          \<and> (\<forall>uid c. credits_of s uid = Some c \<longrightarrow>
                credits_of s' uid
                  = Some (c + sum_list (map tx_amount (filter (\<lambda>t. tx_userId t = uid) new)))))"
proof -
  let ?es = "update_where (\<lambda>e. event_id e = eventId) (resolve_event winningOption now) (bettingEvents s)"
  let ?s1 = "s\<lparr>bettingEvents := ?es\<rparr>"
  let ?ws = "winningBets eventId winningOption s"
  let ?loop = "payout_loop eventId now ?ws ?s1"
  let ?P = "\<lambda>b. bet_eventId b \<noteq> eventId \<or> bet_status b \<noteq> Active"
  have s': "s' = store (transaction s (and_then ?loop
              (\<lambda>s2. Done (s2\<lparr>bets := mark_lost eventId winningOption (bets s2)\<rparr>))))"
    by (simp add: assms(2) resolveBettingEvent_def Let_def winningBets_frame)
  from payout_loop_store [of eventId now ?ws ?s1] obtain us ts g where
    st: "store ?loop = ?s1\<lparr>users := us, creditTransactions := ts, bets := map g (bets s)\<rparr>"
    and gid: "\<forall>b. bet_id b \<notin> bet_id ` fst ` set ?ws \<longrightarrow> g b = b"
    by auto
  have keep: "g b = b" if "b \<in> set (bets s)" "?P b" for b
  proof -
    have "bet_id b \<notin> bet_id ` fst ` set ?ws"
    proof
      assume "bet_id b \<in> bet_id ` fst ` set ?ws"
      then obtain b' opt where m: "(b', opt) \<in> set ?ws" and "bet_id b = bet_id b'" by auto
      with winningBets_member [OF m] that(1) assms(1) have "b = b'"
        by (metis distinct_map inj_onD)
      with winningBets_member [OF m] that(2) show False by simp
    qed
    with gid show ?thesis by simp
  qed
  let ?l = "\<lambda>b. if bet_eventId b = eventId \<and> bet_optionId b \<noteq> winningOption \<and> bet_status b = Active
                  then b\<lparr>bet_status := Lost\<rparr> else b"
  have tables: "(bettingEvents s' = ?es \<and> bets s' = map (?l \<circ> g) (bets s)
                 \<or> bettingEvents s' = bettingEvents s \<and> bets s' = bets s)
     \<and> other_tables_kept s s' \<and> users s' = us \<and> creditTransactions s' = ts"
    using st unfolding s'
    by (cases ?loop) (auto simp: rollback_def mark_lost_def update_where_def other_tables_kept_def)
  have ev: "list_all2 (\<lambda>e e'. event_id e \<noteq> eventId \<longrightarrow> e' = e) (bettingEvents s) (bettingEvents s')"
    using tables by (auto simp: update_where_def list_all2_map_same list_all2_same)
  have bt: "list_all2 (\<lambda>b b'. ?P b \<longrightarrow> b' = b) (bets s) (bets s')"
  proof -
    have "list_all2 (\<lambda>b b'. ?P b \<longrightarrow> b' = b) (bets s) (map (?l \<circ> g) (bets s))"
      unfolding list_all2_map_same using keep by auto
    moreover have "list_all2 (\<lambda>b b'. ?P b \<longrightarrow> b' = b) (bets s) (bets s)"
      by (simp add: list_all2_same)
    ultimately show ?thesis using tables by auto
  qed
  have g: "grows s s'"
    unfolding assms(2) by (rule resolveBettingEvent_grows)
  from payout_loop_ledger [of eventId now ?ws ?s1] obtain new where
    new: "creditTransactions (store ?loop) = creditTransactions s @ new"
    and all: "\<forall>t \<in> set new. tx_type t = ''bet_win'' \<and> tx_referenceId t = Some eventId \<and>
           (\<exists>(b, opt) \<in> set ?ws. tx_userId t = bet_userId b
                \<and> tx_amount t = payout_of (bet_amount b) (multiplier opt))"
    by auto
  from new st tables have led: "creditTransactions s' = creditTransactions s @ new" by simp
  have cr: "credits_of s' uid = Some (c + sum_list (map tx_amount (filter (\<lambda>t. tx_userId t = uid) new)))"
    if "credits_of s uid = Some c" for uid c
  proof -
    from g that obtain nu where nu: "entries_of s' uid = entries_of s uid @ nu"
        "credits_of s' uid = Some (c + sum_list (map tx_amount nu))"
      unfolding grows_def by blast
    from led have "entries_of s' uid = entries_of s uid @ filter (\<lambda>t. tx_userId t = uid) new"
      by (simp add: entries_of_def)
    with nu show ?thesis by simp
  qed
  from g have "map user_id (users s') = map user_id (users s)"
    by (simp add: grows_def)
  with tables ev bt led all cr show ?thesis by blast
qed


theorem resolveBettingEvent_frame_witness:
  "distinct (map bet_id (bets settled))
   \<and> map bet_status (bets settled) = [Won, Active]
   \<and> hd (bets (store (resolveBettingEvent ''derby'' ''blue'' ''admin'' 11 settled))) = hd (bets settled)
   \<and> other_tables_kept settled (store (resolveBettingEvent ''derby'' ''blue'' ''admin'' 11 settled))"
proof -
  have d: "distinct (map bet_id (bets settled))"
    by (simp add: settled_eq example_defs)
  have "map bet_status (bets settled) = [Won, Active]"
    by (simp add: settled_eq example_defs)
  moreover have "hd (bets (store (resolveBettingEvent ''derby'' ''blue'' ''admin'' 11 settled)))
      = hd (bets settled)"
    unfolding settled_eq by (simp add: storage_defs example_defs Let_def payout_values)
  ultimately show ?thesis
    using d resolveBettingEvent_frame [OF d refl, of "''derby''" "''blue''" "''admin''" 11]
    by blast
qed

end
